theory Spec2Isabelle
  imports Main
begin

section \<open>Strings\<close>

text \<open>
  A JavaScript string is a sequence of UTF-16 code units. The Japanese keywords and link
  texts of the crawler lie outside ASCII, so a string is modelled as the list of its code
  units; \<open>js\<close> embeds an ASCII literal.
\<close>

type_synonym jsstring = "nat list"

definition js :: "string \<Rightarrow> jsstring" where
  "js s = map of_char s"

text \<open>
  \<^verbatim>\<open>String.prototype.toLowerCase\<close>, on the code units \<open>A\<close>..\<open>Z\<close>. Other code units are
  left as they are: the Unicode mappings JavaScript applies to them never produce one of
  \<open>.\<close>, \<open>p\<close>, \<open>d\<close>, \<open>f\<close>, the only units the crawler compares a lowered string with.
\<close>

definition toLowerCase_unit :: "nat \<Rightarrow> nat" where
  "toLowerCase_unit c = (if 65 \<le> c \<and> c \<le> 90 then c + 32 else c)"

definition toLowerCase :: "jsstring \<Rightarrow> jsstring" where
  "toLowerCase s = map toLowerCase_unit s"

text \<open>\<^verbatim>\<open>s.endsWith(suffix)\<close>.\<close>

definition endsWith :: "jsstring \<Rightarrow> jsstring \<Rightarrow> bool" where
  "endsWith s suffix =
     (length suffix \<le> length s \<and> drop (length s - length suffix) s = suffix)"

text \<open>
  The \<open>Canonicalize\<close> operation of a regular expression with flag \<open>i\<close> (and without
  \<open>u\<close>): the code unit is upper-cased, and a unit outside ASCII is never mapped into
  ASCII. The letters \<open>a\<close>..\<open>z\<close> are modelled; the kana and kanji of the keyword list have
  no case and are the image of no other unit.
\<close>

definition canonicalize :: "nat \<Rightarrow> nat" where
  "canonicalize c = (if 97 \<le> c \<and> c \<le> 122 then c - 32 else c)"

text \<open>
  Matching a pattern made of literal characters only: \<open>match_here\<close> tries the pattern at
  the head of the input, \<open>search\<close> tries every start position from the left, as
  \<^verbatim>\<open>RegExp.prototype.test\<close> does for a pattern without the \<open>g\<close> and \<open>y\<close> flags. The
  function \<open>f\<close> is the canonicalisation applied to both sides.
\<close>

fun match_here :: "(nat \<Rightarrow> nat) \<Rightarrow> jsstring \<Rightarrow> jsstring \<Rightarrow> bool" where
  "match_here f [] s = True"
| "match_here f (k # ks) [] = False"
| "match_here f (k # ks) (c # cs) = (f k = f c \<and> match_here f ks cs)"

fun search :: "(nat \<Rightarrow> nat) \<Rightarrow> jsstring \<Rightarrow> jsstring \<Rightarrow> bool" where
  "search f pat [] = match_here f pat []"
| "search f pat (c # cs) = (match_here f pat (c # cs) \<or> search f pat cs)"

text \<open>\<^verbatim>\<open>new RegExp(keyword, 'i').test(s)\<close> for a keyword without metacharacters.\<close>

definition RegExp_i_test :: "jsstring \<Rightarrow> jsstring \<Rightarrow> bool" where
  "RegExp_i_test keyword s = search canonicalize keyword s"

text \<open>\<^verbatim>\<open>s.includes(part)\<close>: the same scan, comparing code units as they are.\<close>

definition includes_js :: "jsstring \<Rightarrow> jsstring \<Rightarrow> bool" where
  "includes_js s part = search (\<lambda>c. c) part s"

text \<open>
  \<^verbatim>\<open>String.prototype.trim\<close> removes white space and line terminators from both ends.
\<close>

definition isWhiteSpace :: "nat \<Rightarrow> bool" where
  "isWhiteSpace c =
     (c \<in> {9, 10, 11, 12, 13, 32, 160, 5760, 8232, 8233, 8239, 8287, 12288, 65279}
      \<or> (8192 \<le> c \<and> c \<le> 8202))"

definition trim :: "jsstring \<Rightarrow> jsstring" where
  "trim s = rev (dropWhile isWhiteSpace (rev (dropWhile isWhiteSpace s)))"

section \<open>The environment\<close>

text \<open>
  What the crawler reaches through its libraries is a parameter of the model.
  A response carries \<open>ok\<close> and the outcome of \<^verbatim>\<open>response.text()\<close> (\<open>None\<close> when reading
  the body rejects). A robots policy is the truth value of
  \<^verbatim>\<open>robots.isAllowed(url, 'CustomBot')\<close> (the library's \<^verbatim>\<open>undefined\<close> counts as false
  wherever the crawler tests it).
\<close>

record response =
  ok :: bool
  body :: "jsstring option"

type_synonym robots = "jsstring \<Rightarrow> bool"

text \<open>An \<open>a\<close> element as cheerio presents it: \<^verbatim>\<open>attr('href')\<close> and \<^verbatim>\<open>text()\<close>.\<close>

record anchor =
  a_href :: "jsstring option"
  a_text :: jsstring

text \<open>
  A link collected in the rendered page by \<^verbatim>\<open>page.evaluate\<close>: a non-empty attribute value
  and the trimmed text content.
\<close>

record link =
  l_href :: jsstring
  l_text :: jsstring

text \<open>
  The outcome of the headless rendering steps of \<open>searchPDFsInPageWithJS\<close>:
  the links of the rendered page, a rejected \<^verbatim>\<open>puppeteer.launch\<close> (the variable
  \<open>browser\<close> stays undefined), or a rejection after the launch (\<^verbatim>\<open>newPage\<close>,
  \<^verbatim>\<open>goto\<close> with its 30 s timeout, \<^verbatim>\<open>evaluate\<close>).
\<close>

datatype render = Rendered "link list" | LaunchFailed | RenderFailed

text \<open>
  A value that xml2js puts at \<^verbatim>\<open>item.loc[0]\<close>: a string, or an object when the
  \<open>loc\<close> element carries attributes or child elements.
\<close>

datatype jsval = JString jsstring | JObject

text \<open>
  A \<open>url\<close> entry of the parsed urlset: without a \<open>loc\<close> child (\<^verbatim>\<open>item.loc\<close> is
  undefined and \<^verbatim>\<open>item.loc[0]\<close> throws a TypeError), or with the value of
  \<^verbatim>\<open>item.loc[0]\<close>.
\<close>

datatype sitemap_entry = NoLoc | Loc jsval

text \<open>
  The result of \<^verbatim>\<open>parser.parseStringPromise(xml)\<close>, as far as \<open>getSitemapUrls\<close> reads
  it. \<open>ParseError\<close>: the promise rejects, or resolves to \<^verbatim>\<open>null\<close> (reading
  \<^verbatim>\<open>result.urlset\<close> then throws). \<open>Parsed None\<close>: \<^verbatim>\<open>result.urlset && result.urlset.url\<close>
  is falsy. \<open>Parsed (Some entries)\<close>: the array \<^verbatim>\<open>result.urlset.url\<close>.
\<close>

datatype xml = ParseError | Parsed "sitemap_entry list option"

record env =
  fetch :: "jsstring \<Rightarrow> response option"
  new_URL :: "jsstring \<Rightarrow> jsstring \<Rightarrow> jsstring option"
  cheerio_a :: "jsstring \<Rightarrow> anchor list"
  robotsParser :: "jsstring \<Rightarrow> jsstring \<Rightarrow> robots"
  parseStringPromise :: "jsstring \<Rightarrow> xml"
  puppeteer :: "jsstring \<Rightarrow> render"
  close_resolves :: "jsstring \<Rightarrow> nat \<Rightarrow> bool"

text \<open>
  \<open>fetch E u\<close> is \<open>None\<close> when the request rejects. \<open>new_URL E input base\<close> is the
  \<open>href\<close> of \<^verbatim>\<open>new URL(input, base)\<close>, \<open>None\<close> when the constructor throws.
  \<open>cheerio_a E html\<close> lists the \<open>a\<close> elements of the parsed document in document order.
  \<open>close_resolves E url n\<close> tells whether the call number \<open>n\<close> (from 0) of
  \<^verbatim>\<open>browser.close()\<close> during the rendered scan of \<open>url\<close> resolves; it rejects
  otherwise, as it may on a browser that has crashed.
\<close>

text \<open>
  The exceptions that leave a function of the crawler: the TypeError of a method call on
  a value that has no such method, and the rejection of \<^verbatim>\<open>browser.close()\<close>.
\<close>

datatype js_error = TypeError | BrowserError

section \<open>Classifying a link\<close>

text \<open>The keyword list of \<open>searchPDFsInPage\<close>, as written there (one entry twice).\<close>

definition ALLERGY_KEYWORDS :: "jsstring list" where
  "ALLERGY_KEYWORDS =
     [js ''allergy'', [12450, 12524, 12523, 12462, 12540], js ''allergen'', js ''pictogram'',
      [29305, 23450, 21407, 26448, 26009], [21407, 26009], [25104, 20998],
      [21547, 12414, 12428, 12427], js ''allergen'',
      js ''ingredient'', js ''ingredients'']"

definition isPDF :: "jsstring \<Rightarrow> bool" where
  "isPDF fullUrl = endsWith (toLowerCase fullUrl) (js ''.pdf'')"

definition isAllergyKeyword :: "jsstring \<Rightarrow> jsstring \<Rightarrow> bool" where
  "isAllergyKeyword fullUrl linkText =
     list_ex (\<lambda>keyword. RegExp_i_test keyword fullUrl \<or> RegExp_i_test keyword linkText)
       ALLERGY_KEYWORDS"

section \<open>Scanning one page\<close>

record pdfhit =
  hit_url :: jsstring
  hit_text :: jsstring
  hit_source :: jsstring

definition isAllowedByRobots :: "robots option \<Rightarrow> jsstring \<Rightarrow> bool" where
  "isAllowedByRobots robots url = (case robots of None \<Rightarrow> True | Some r \<Rightarrow> r url)"

text \<open>
  The body of the \<^verbatim>\<open>$('a').each\<close> callback: it returns the array \<open>pagePdfLinks\<close> as the
  callback leaves it. A missing or empty \<open>href\<close> returns at once; a URL that does not
  parse is caught and ignored.
\<close>

definition each_anchor ::
  "env \<Rightarrow> jsstring \<Rightarrow> robots option \<Rightarrow> pdfhit list \<Rightarrow> anchor \<Rightarrow> pdfhit list" where
  "each_anchor E url robots pagePdfLinks element =
     (let linkText = trim (a_text element) in
      case a_href element of
        None \<Rightarrow> pagePdfLinks
      | Some href \<Rightarrow>
          if href = [] then pagePdfLinks
          else
            (case new_URL E href url of
               None \<Rightarrow> pagePdfLinks
             | Some fullUrl \<Rightarrow>
                 if isPDF fullUrl \<and> isAllergyKeyword fullUrl linkText then
                   (if robots \<noteq> None \<and> isAllowedByRobots robots fullUrl then
                      pagePdfLinks @
                        [\<lparr>hit_url = fullUrl,
                          hit_text = (if linkText = [] then js ''PDF'' else linkText),
                          hit_source = url\<rparr>]
                    else pagePdfLinks)
                 else pagePdfLinks))"

definition searchPDFsInPage :: "env \<Rightarrow> jsstring \<Rightarrow> robots option \<Rightarrow> pdfhit list" where
  "searchPDFsInPage E url robots =
     (if robots \<noteq> None \<and> \<not> isAllowedByRobots robots url then []
      else
        (case fetch E url of
           None \<Rightarrow> []
         | Some response \<Rightarrow>
             (case body response of
                None \<Rightarrow> []
              | Some html \<Rightarrow> foldl (each_anchor E url robots) [] (cheerio_a E html))))"


section \<open>Scanning a rendered page\<close>

text \<open>The keyword list of \<open>searchPDFsInPageWithJS\<close>, as written there.\<close>

definition ALLERGY_KEYWORDS_JS :: "jsstring list" where
  "ALLERGY_KEYWORDS_JS =
     [js ''allergy'', [12450, 12524, 12523, 12462, 12540], js ''allergen'', js ''pictogram'',
      [29305, 23450, 21407, 26448, 26009], [21407, 26009], [25104, 20998],
      [21547, 12414, 12428, 12427],
      js ''ingredient'', js ''ingredients'']"

text \<open>The body of the loop over the links of the rendered page.\<close>

definition each_link ::
  "env \<Rightarrow> jsstring \<Rightarrow> robots option \<Rightarrow> pdfhit list \<Rightarrow> link \<Rightarrow> pdfhit list" where
  "each_link E url robots pagePdfLinks lnk =
     (case new_URL E (l_href lnk) url of
        None \<Rightarrow> pagePdfLinks
      | Some fullUrl \<Rightarrow>
          if isPDF fullUrl \<and>
             list_ex (\<lambda>keyword. RegExp_i_test keyword fullUrl \<or> RegExp_i_test keyword (l_text lnk))
               ALLERGY_KEYWORDS_JS
          then
            (if robots \<noteq> None \<and> isAllowedByRobots robots fullUrl then
               pagePdfLinks @
                 [\<lparr>hit_url = fullUrl,
                   hit_text = (if l_text lnk = [] then js ''PDF'' else l_text lnk),
                   hit_source = url\<rparr>]
             else pagePdfLinks)
          else pagePdfLinks)"

text \<open>
  The variable \<open>browser\<close> when \<open>searchPDFsInPageWithJS\<close> returns: never assigned, still
  open, or closed by \<^verbatim>\<open>browser.close()\<close>.
\<close>

datatype browser = Undefined | Open | Closed

text \<open>
  \<open>searchPDFsInPageWithJS\<close> returns its hits and the state of the browser, or throws.
  A failure after the launch reaches the \<open>catch\<close> block, which awaits
  \<^verbatim>\<open>browser.close()\<close> outside any \<open>try\<close>: when that call rejects, the rejection leaves the
  function and the fallback is not run. After a successful rendering the call
  \<^verbatim>\<open>browser.close()\<close> stands inside the \<open>try\<close> block: when it rejects, the \<open>catch\<close> block
  runs, closes again and falls back.
\<close>

definition searchPDFsInPageWithJS ::
  "env \<Rightarrow> jsstring \<Rightarrow> robots option \<Rightarrow> js_error + pdfhit list \<times> browser" where
  "searchPDFsInPageWithJS E url robots =
     (if robots \<noteq> None \<and> \<not> isAllowedByRobots robots url then Inr ([], Undefined)
      else
        (case puppeteer E url of
           Rendered links \<Rightarrow>
             if close_resolves E url 0 then Inr (foldl (each_link E url robots) [] links, Closed)
             else if close_resolves E url 1 then Inr (searchPDFsInPage E url robots, Closed)
             else Inl BrowserError
         | LaunchFailed \<Rightarrow> Inr (searchPDFsInPage E url robots, Undefined)
         | RenderFailed \<Rightarrow>
             if close_resolves E url 0 then Inr (searchPDFsInPage E url robots, Closed)
             else Inl BrowserError))"

section \<open>Discovering pages\<close>

text \<open>
  A JavaScript \<open>Set\<close> of strings keeps its members in insertion order; \<open>Set_add\<close> is
  \<^verbatim>\<open>set.add(x)\<close> on the list \<^verbatim>\<open>Array.from(set)\<close>.
\<close>

definition Set_add :: "jsstring list \<Rightarrow> jsstring \<Rightarrow> jsstring list" where
  "Set_add members x = (if x \<in> set members then members else members @ [x])"

definition startsWith :: "jsstring \<Rightarrow> jsstring \<Rightarrow> bool" where
  "startsWith s pre = (take (length pre) s = pre)"

definition each_subpage_anchor ::
  "env \<Rightarrow> jsstring \<Rightarrow> jsstring list \<Rightarrow> anchor \<Rightarrow> jsstring list" where
  "each_subpage_anchor E baseUrl subpageUrls element =
     (case a_href element of
        None \<Rightarrow> subpageUrls
      | Some href \<Rightarrow>
          if href = [] then subpageUrls
          else
            (case new_URL E href baseUrl of
               None \<Rightarrow> subpageUrls
             | Some fullUrl \<Rightarrow>
                 if startsWith fullUrl baseUrl then Set_add subpageUrls fullUrl
                 else subpageUrls))"

definition getSubpageUrls :: "env \<Rightarrow> jsstring \<Rightarrow> robots option \<Rightarrow> jsstring list" where
  "getSubpageUrls E baseUrl robots =
     (if robots \<noteq> None \<and> \<not> isAllowedByRobots robots baseUrl then []
      else
        (case fetch E baseUrl of
           None \<Rightarrow> []
         | Some response \<Rightarrow>
             (case body response of
                None \<Rightarrow> []
              | Some html \<Rightarrow> foldl (each_subpage_anchor E baseUrl) [] (cheerio_a E html))))"

text \<open>
  \<^verbatim>\<open>result.urlset.url.map(item => item.loc[0])\<close>: \<open>None\<close> when an entry has no
  \<open>loc\<close> and the callback throws.
\<close>

fun map_loc :: "sitemap_entry list \<Rightarrow> jsval list option" where
  "map_loc [] = Some []"
| "map_loc (NoLoc # items) = None"
| "map_loc (Loc v # items) = (case map_loc items of None \<Rightarrow> None | Some vs \<Rightarrow> Some (v # vs))"

text \<open>
  \<open>getSitemapUrls\<close> returns the URL list; the second component lists the requests it
  sent with \<open>fetch\<close>. Every exception inside it is caught there and gives the empty list.
\<close>

definition getSitemapUrls :: "env \<Rightarrow> jsstring \<Rightarrow> jsval list \<times> jsstring list" where
  "getSitemapUrls E baseUrl =
     (case new_URL E (js ''/sitemap.xml'') baseUrl of
        None \<Rightarrow> ([], [])
      | Some sitemapUrl \<Rightarrow>
          (case fetch E sitemapUrl of
             None \<Rightarrow> ([], [sitemapUrl])
           | Some response \<Rightarrow>
               if \<not> ok response then ([], [sitemapUrl])
               else
                 (case body response of
                    None \<Rightarrow> ([], [sitemapUrl])
                  | Some xml \<Rightarrow>
                      (case parseStringPromise E xml of
                         ParseError \<Rightarrow> ([], [sitemapUrl])
                       | Parsed None \<Rightarrow> ([], [sitemapUrl])
                       | Parsed (Some items) \<Rightarrow>
                           (case map_loc items of
                              None \<Rightarrow> ([], [sitemapUrl])
                            | Some urls \<Rightarrow> (urls, [sitemapUrl]))))))"

section \<open>The robots gate\<close>

text \<open>
  \<open>getRobotsRules\<close> returns the policy (\<open>None\<close> is \<^verbatim>\<open>null\<close>) and the requests it sent.
  The status of the response is not looked at.
\<close>

definition getRobotsRules :: "env \<Rightarrow> jsstring \<Rightarrow> robots option \<times> jsstring list" where
  "getRobotsRules E baseUrl =
     (case new_URL E (js ''/robots.txt'') baseUrl of
        None \<Rightarrow> (None, [])
      | Some robotsUrl \<Rightarrow>
          (case fetch E robotsUrl of
             None \<Rightarrow> (None, [robotsUrl])
           | Some response \<Rightarrow>
               (case body response of
                  None \<Rightarrow> (None, [robotsUrl])
                | Some robotsTxt \<Rightarrow> (Some (robotsParser E robotsUrl robotsTxt), [robotsUrl]))))"

text \<open>
  The module-level \<open>robotsCache\<close> is a \<open>Map\<close> from the base URL to the parsed rules.
  \<open>getRobotsRulesWithCache\<close> takes the cache and returns the policy, the cache as it
  leaves it, and the requests it sent.
\<close>

type_synonym robotsCache = "jsstring \<rightharpoonup> robots"

definition getRobotsRulesWithCache ::
  "env \<Rightarrow> jsstring \<Rightarrow> robotsCache \<Rightarrow> robots option \<times> robotsCache \<times> jsstring list" where
  "getRobotsRulesWithCache E baseUrl cache =
     (if cache baseUrl \<noteq> None then (cache baseUrl, cache, [])
      else
        (case new_URL E (js ''/robots.txt'') baseUrl of
           None \<Rightarrow> (None, cache, [])
         | Some robotsUrl \<Rightarrow>
             (case fetch E robotsUrl of
                None \<Rightarrow> (None, cache, [robotsUrl])
              | Some response \<Rightarrow>
                  (case body response of
                     None \<Rightarrow> (None, cache, [robotsUrl])
                   | Some robotsTxt \<Rightarrow>
                       (let rules = robotsParser E robotsUrl robotsTxt
                        in (Some rules, cache(baseUrl \<mapsto> rules), [robotsUrl]))))))"

section \<open>The batch scheduler\<close>

text \<open>\<^verbatim>\<open>xs.slice(start, stop)\<close> for \<open>0 \<le> start \<le> stop\<close>.\<close>

definition slice :: "'a list \<Rightarrow> nat \<Rightarrow> nat \<Rightarrow> 'a list" where
  "slice xs start stop = take (stop - start) (drop start xs)"

text \<open>
  The \<open>for\<close> loop of \<open>searchSubpagesParallel\<close>, from index \<open>i\<close>. \<^verbatim>\<open>Promise.all\<close> gives the
  results of a batch in the order of the batch, \<^verbatim>\<open>flat()\<close> concatenates them. Besides
  \<open>pdfLinks\<close> the model returns the batches the loop formed. With \<open>maxConcurrent = 0\<close>
  the index never advances and the loop does not end: the value is \<open>None\<close>.
\<close>

partial_function (option) searchSubpagesParallel_loop ::
  "(jsstring \<Rightarrow> pdfhit list) \<Rightarrow> jsstring list \<Rightarrow> nat \<Rightarrow> nat \<Rightarrow> pdfhit list \<Rightarrow>
   jsstring list list \<Rightarrow> (pdfhit list \<times> jsstring list list) option" where
  "searchSubpagesParallel_loop scan subpageUrls maxConcurrent i pdfLinks batches =
     (if i < length subpageUrls then
        searchSubpagesParallel_loop scan subpageUrls maxConcurrent (i + maxConcurrent)
          (pdfLinks @ concat (map scan (slice subpageUrls i (i + maxConcurrent))))
          (batches @ [slice subpageUrls i (i + maxConcurrent)])
      else Some (pdfLinks, batches))"

definition searchSubpagesParallel ::
  "env \<Rightarrow> jsstring list \<Rightarrow> robots option \<Rightarrow> nat \<Rightarrow>
   (pdfhit list \<times> jsstring list list) option" where
  "searchSubpagesParallel E subpageUrls robots maxConcurrent =
     searchSubpagesParallel_loop (\<lambda>url. searchPDFsInPage E url robots)
       subpageUrls maxConcurrent 0 [] []"

text \<open>
  The scans of one batch run inside \<^verbatim>\<open>Promise.all\<close>: each URL of the batch starts its
  scan once and ends it later, in any interleaving, and the batch is over when every
  scan has ended. \<open>batch_trace pending running events\<close> checks a sequence of events
  against that, from the scans not yet started and the scans in flight.
\<close>

datatype event = ScanStart jsstring | ScanEnd jsstring

fun batch_trace :: "jsstring list \<Rightarrow> jsstring list \<Rightarrow> event list \<Rightarrow> bool" where
  "batch_trace pending running [] = (pending = [] \<and> running = [])"
| "batch_trace pending running (ScanStart u # events) =
     (u \<in> set pending \<and> batch_trace (remove1 u pending) (u # running) events)"
| "batch_trace pending running (ScanEnd u # events) =
     (u \<in> set running \<and> batch_trace pending (remove1 u running) events)"

text \<open>
  The loop awaits a batch before it forms the next one: a trace of the whole run is the
  traces of its batches one after the other.
\<close>

fun run_trace :: "jsstring list list \<Rightarrow> event list list \<Rightarrow> bool" where
  "run_trace [] [] = True"
| "run_trace (batch # batches) (events # traces) =
     (batch_trace batch [] events \<and> run_trace batches traces)"
| "run_trace _ _ = False"

text \<open>The number of scans in flight after a sequence of events.\<close>

fun in_flight :: "event list \<Rightarrow> int" where
  "in_flight [] = 0"
| "in_flight (ScanStart u # events) = in_flight events + 1"
| "in_flight (ScanEnd u # events) = in_flight events - 1"

text \<open>
  The partition the specification describes: consecutive batches of \<open>n\<close> elements, the
  last one with what is left.
\<close>

fun chunks :: "nat \<Rightarrow> 'a list \<Rightarrow> 'a list list" where
  "chunks n xs = (if n = 0 \<or> xs = [] then [] else take n xs # chunks n (drop n xs))"

declare chunks.simps [simp del]

section \<open>The orchestrator\<close>

text \<open>
  The loop of \<open>searchSitemapUrlsForPdfs\<close>. A sitemap value that is not a string has no
  method \<open>includes\<close>: the call throws a TypeError. Nothing in the function catches it,
  nor an exception of the rendered scan, and the local \<open>pdfLinks\<close> is lost with it.
  Besides the outcome the model returns the URLs that were handed to a scanner.
\<close>

fun searchSitemapUrlsForPdfs_loop ::
  "env \<Rightarrow> robots option \<Rightarrow> jsval list \<Rightarrow> pdfhit list \<Rightarrow> jsstring list \<Rightarrow>
   (js_error + pdfhit list) \<times> jsstring list" where
  "searchSitemapUrlsForPdfs_loop E robots [] pdfLinks scanned = (Inr pdfLinks, scanned)"
| "searchSitemapUrlsForPdfs_loop E robots (JObject # rest) pdfLinks scanned =
     (Inl TypeError, scanned)"
| "searchSitemapUrlsForPdfs_loop E robots (JString sitemapUrl # rest) pdfLinks scanned =
     (if includes_js sitemapUrl (js ''allergen'') \<or> includes_js sitemapUrl (js ''origin'')
      then
        (case searchPDFsInPageWithJS E sitemapUrl robots of
           Inl err \<Rightarrow> (Inl err, scanned @ [sitemapUrl])
         | Inr (pdfs, browser) \<Rightarrow>
             searchSitemapUrlsForPdfs_loop E robots rest (pdfLinks @ pdfs)
               (scanned @ [sitemapUrl]))
      else
        searchSitemapUrlsForPdfs_loop E robots rest
          (pdfLinks @ searchPDFsInPage E sitemapUrl robots) (scanned @ [sitemapUrl]))"

definition searchSitemapUrlsForPdfs ::
  "env \<Rightarrow> jsval list \<Rightarrow> robots option \<Rightarrow> (js_error + pdfhit list) \<times> jsstring list" where
  "searchSitemapUrlsForPdfs E sitemapUrls robots =
     searchSitemapUrlsForPdfs_loop E robots sitemapUrls [] []"

text \<open>
  The state of one run of \<open>findAllergyPDFs\<close>: its two local variables, and the scans it
  has dispatched so far, each with its phase.
\<close>

datatype phase = Seed | Sitemap | Subpage

record crawl =
  pdfLinks :: "pdfhit list"
  visitedUrls :: "jsval set"
  scans :: "(phase \<times> jsstring) list"

definition seedScan :: "env \<Rightarrow> jsstring \<Rightarrow> robots option \<Rightarrow> crawl \<Rightarrow> crawl" where
  "seedScan E siteUrl robots st =
     st\<lparr>pdfLinks := pdfLinks st @ searchPDFsInPage E siteUrl robots,
        visitedUrls := insert (JString siteUrl) (visitedUrls st),
        scans := scans st @ [(Seed, siteUrl)]\<rparr>"

text \<open>
  The sitemap phase returns the exception that left it, if one did, and the state at
  that point.
\<close>

definition sitemapPhase ::
  "env \<Rightarrow> jsstring \<Rightarrow> robots option \<Rightarrow> crawl \<Rightarrow> js_error option \<times> crawl" where
  "sitemapPhase E siteUrl robots st =
     (let sitemapUrls = fst (getSitemapUrls E siteUrl) in
      if length sitemapUrls > 0 then
        (let unvisitedSitemapUrls = filter (\<lambda>url. url \<notin> visitedUrls st) sitemapUrls;
             st1 = st\<lparr>visitedUrls := fold insert unvisitedSitemapUrls (visitedUrls st)\<rparr>
         in if length unvisitedSitemapUrls > 0 then
              (case searchSitemapUrlsForPdfs E unvisitedSitemapUrls robots of
                 (Inl err, scanned) \<Rightarrow>
                   (Some err, st1\<lparr>scans := scans st1 @ map (Pair Sitemap) scanned\<rparr>)
               | (Inr sitemapPdfs, scanned) \<Rightarrow>
                   (None, st1\<lparr>pdfLinks := pdfLinks st1 @ sitemapPdfs,
                               scans := scans st1 @ map (Pair Sitemap) scanned\<rparr>))
            else (None, st1))
      else (None, st))"

text \<open>The sub-page phase; \<open>None\<close> when the scheduler does not return.\<close>

definition subpagePhase :: "env \<Rightarrow> jsstring \<Rightarrow> robots option \<Rightarrow> crawl \<Rightarrow> crawl option" where
  "subpagePhase E siteUrl robots st =
     (let subpageUrls = getSubpageUrls E siteUrl robots;
          unvisitedUrls = filter (\<lambda>url. JString url \<notin> visitedUrls st) subpageUrls;
          st1 = st\<lparr>visitedUrls := fold (\<lambda>url. insert (JString url)) unvisitedUrls (visitedUrls st)\<rparr>
      in if length unvisitedUrls > 0 then
           (case searchSubpagesParallel E unvisitedUrls robots 2 of
              None \<Rightarrow> None
            | Some (subpagePdfs, batches) \<Rightarrow>
                Some (st1\<lparr>pdfLinks := pdfLinks st1 @ subpagePdfs,
                          scans := scans st1 @ map (Pair Subpage) (concat batches)\<rparr>))
         else Some st1)"

text \<open>
  What a run of \<open>findAllergyPDFs\<close> leaves: the list it returns, whether it returned from
  the \<open>try\<close> block or from the \<open>catch\<close> block, the states after each phase it went
  through (the initial state first), and the requests \<open>getRobotsRules\<close> sent.
\<close>

datatype outcome = Returned | Caught js_error

record run =
  result :: "pdfhit list"
  outcome :: outcome
  history :: "crawl list"
  robots_requests :: "jsstring list"

definition findAllergyPDFs :: "env \<Rightarrow> jsstring \<Rightarrow> run option" where
  "findAllergyPDFs E siteUrl =
     (let robots = fst (getRobotsRules E siteUrl);
          requests = snd (getRobotsRules E siteUrl);
          s0 = \<lparr>pdfLinks = [], visitedUrls = {}, scans = []\<rparr>;
          s1 = seedScan E siteUrl robots s0;
          thrown = fst (sitemapPhase E siteUrl robots s1);
          s2 = snd (sitemapPhase E siteUrl robots s1)
      in case thrown of
           Some err \<Rightarrow>
             Some \<lparr>result = pdfLinks s2, outcome = Caught err, history = [s0, s1, s2],
                   robots_requests = requests\<rparr>
         | None \<Rightarrow>
             (case subpagePhase E siteUrl robots s2 of
                None \<Rightarrow> None
              | Some s3 \<Rightarrow>
                  Some \<lparr>result = pdfLinks s3, outcome = Returned, history = [s0, s1, s2, s3],
                        robots_requests = requests\<rparr>))"

section \<open>The specification's wording\<close>

text \<open>
  The path of an absolute URL with an authority, as the specification's condition (a)
  reads it: what lies between the authority and the first \<open>?\<close> or \<open>#\<close>.
\<close>

definition pathname :: "jsstring \<Rightarrow> jsstring" where
  "pathname href =
     takeWhile (\<lambda>c. c \<noteq> 63 \<and> c \<noteq> 35)
       (dropWhile (\<lambda>c. c \<noteq> 47) (drop 3 (dropWhile (\<lambda>c. c \<noteq> 58) href)))"

text \<open>A string ends, case-insensitively, with a lower-case suffix.\<close>

definition ends_with_ci :: "jsstring \<Rightarrow> jsstring \<Rightarrow> bool" where
  "ends_with_ci s suffix = (\<exists>p t. s = p @ t \<and> map toLowerCase_unit t = suffix)"

text \<open>A keyword occurs, case-insensitively, as a substring.\<close>

definition contains_ci :: "jsstring \<Rightarrow> jsstring \<Rightarrow> bool" where
  "contains_ci keyword s =
     (\<exists>p m q. s = p @ m @ q \<and> map canonicalize m = map canonicalize keyword)"

text \<open>
  An anchor satisfies the PDF-extension-plus-keyword rule on the page \<open>url\<close>: it has a
  non-empty \<open>href\<close> that resolves, and the resolved URL with the trimmed text passes
  both tests.
\<close>

definition satisfies_rule :: "env \<Rightarrow> jsstring \<Rightarrow> anchor \<Rightarrow> bool" where
  "satisfies_rule E url element =
     (case a_href element of
        None \<Rightarrow> False
      | Some href \<Rightarrow>
          href \<noteq> [] \<and>
          (case new_URL E href url of
             None \<Rightarrow> False
           | Some fullUrl \<Rightarrow> isPDF fullUrl \<and> isAllergyKeyword fullUrl (trim (a_text element))))"

section \<open>A small site\<close>

text \<open>
  The site of the specification's scenario: the seed page \<^verbatim>\<open>https://example.test/\<close>
  with the one anchor of the scenario, a menu page with three anchors, an empty
  \<^verbatim>\<open>robots.txt\<close> that allows every URL, and a sitemap whose entries are a parameter.
\<close>

definition origin :: jsstring where
  "origin = js ''https://example.test''"

definition seed :: jsstring where
  "seed = js ''https://example.test/''"

definition menu :: jsstring where
  "menu = js ''https://example.test/menu''"

definition allergy_text :: jsstring where
  "allergy_text = [12450, 12524, 12523, 12462, 12540, 24773, 22577]"

definition seed_html :: jsstring where
  "seed_html =
     js ''<a href='' @ [34] @ js ''/docs/allergy.pdf'' @ [34] @ js ''>'' @ allergy_text @ js ''</a>''"

definition menu_html :: jsstring where
  "menu_html =
     js ''<a href=/docs/Allergen.PDF> Chart </a><a href=/docs/allergy.pdf?v=2>Menu</a><a>About</a>''"

definition allow_all :: robots where
  "allow_all url = True"

definition site :: "sitemap_entry list \<Rightarrow> env" where
  "site entries =
     \<lparr>fetch = (\<lambda>u. if u = seed then Some \<lparr>ok = True, body = Some seed_html\<rparr>
                 else if u = menu then Some \<lparr>ok = True, body = Some menu_html\<rparr>
                 else if u = js ''https://example.test/robots.txt''
                   then Some \<lparr>ok = True, body = Some []\<rparr>
                 else if u = js ''https://example.test/sitemap.xml''
                   then Some \<lparr>ok = True, body = Some (js ''<urlset/>'')\<rparr>
                 else None),
      new_URL = (\<lambda>input base. if startsWith base origin \<and> startsWith input (js ''/'')
                   then Some (origin @ input) else None),
      cheerio_a = (\<lambda>html.
         if html = seed_html
           then [\<lparr>a_href = Some (js ''/docs/allergy.pdf''), a_text = allergy_text\<rparr>]
         else if html = menu_html
           then [\<lparr>a_href = Some (js ''/docs/Allergen.PDF''), a_text = js '' Chart ''\<rparr>,
                 \<lparr>a_href = Some (js ''/docs/allergy.pdf?v=2''), a_text = js ''Menu''\<rparr>,
                 \<lparr>a_href = None, a_text = js ''About''\<rparr>]
         else []),
      robotsParser = (\<lambda>robotsUrl robotsTxt. allow_all),
      parseStringPromise = (\<lambda>xml. Parsed (Some entries)),
      puppeteer = (\<lambda>url. RenderFailed),
      close_resolves = (\<lambda>url n. True)\<rparr>"

definition seed_hit :: pdfhit where
  "seed_hit =
     \<lparr>hit_url = js ''https://example.test/docs/allergy.pdf'', hit_text = allergy_text,
      hit_source = seed\<rparr>"

definition menu_hit :: pdfhit where
  "menu_hit =
     \<lparr>hit_url = js ''https://example.test/docs/Allergen.PDF'', hit_text = js ''Chart'',
      hit_source = menu\<rparr>"

text \<open>Five URLs for the scheduler, and one way their scans can start and end.\<close>

definition five_urls :: "jsstring list" where
  "five_urls = [seed, js ''a'', menu, js ''b'', js ''c'']"

definition five_traces :: "event list list" where
  "five_traces =
     [[ScanStart seed, ScanStart (js ''a''), ScanEnd (js ''a''), ScanEnd seed],
      [ScanStart menu, ScanEnd menu, ScanStart (js ''b''), ScanEnd (js ''b'')],
      [ScanStart (js ''c''), ScanEnd (js ''c'')]]"

text \<open>
  More of the small site: the URLs the crawler derives from the seed, a sitemap with one
  page, and a sitemap whose second \<open>loc\<close> is not a string. Three variants of the site:
  the network is down, every request is answered with status 404, and the sitemap does
  not parse.
\<close>

definition robots_txt :: jsstring where
  "robots_txt = js ''https://example.test/robots.txt''"

definition sitemap_xml :: jsstring where
  "sitemap_xml = js ''https://example.test/sitemap.xml''"

definition allergy_pdf :: jsstring where
  "allergy_pdf = js ''https://example.test/docs/allergy.pdf''"

definition plain_sitemap :: "sitemap_entry list" where
  "plain_sitemap = [Loc (JString menu)]"

definition broken_sitemap :: "sitemap_entry list" where
  "broken_sitemap = [Loc (JString menu), Loc JObject]"

definition offline :: env where
  "offline = (site [])\<lparr>fetch := (\<lambda>u. None)\<rparr>"

definition not_found :: env where
  "not_found = (site [])\<lparr>fetch := (\<lambda>u. Some \<lparr>ok = False, body = Some (js ''Not Found'')\<rparr>)\<rparr>"

definition unparsable :: env where
  "unparsable = (site [])\<lparr>parseStringPromise := (\<lambda>xml. ParseError)\<rparr>"

text \<open>
  Two calls of \<open>getRobotsRulesWithCache\<close> in a row for the same base URL, the second on
  the cache the first left: the two results and all requests sent.
\<close>

definition get_twice ::
  "env \<Rightarrow> jsstring \<Rightarrow> robotsCache \<Rightarrow> robots option \<times> robots option \<times> jsstring list" where
  "get_twice E baseUrl cache =
     (case getRobotsRulesWithCache E baseUrl cache of
        (first, cache1, requests1) \<Rightarrow>
          (case getRobotsRulesWithCache E baseUrl cache1 of
             (second, cache2, requests2) \<Rightarrow> (first, second, requests1 @ requests2)))"

text \<open>
  Further variants of the small site: the browser has crashed and
  \<^verbatim>\<open>browser.close()\<close> rejects, the body of a response cannot be read, and the parsed
  document has no urlset. A sitemap whose second entry has no \<open>loc\<close>.
\<close>

definition crashed :: env where
  "crashed = (site [])\<lparr>close_resolves := (\<lambda>url n. False)\<rparr>"

definition unreadable :: env where
  "unreadable = (site [])\<lparr>fetch := (\<lambda>u. Some \<lparr>ok = True, body = None\<rparr>)\<rparr>"

definition not_a_urlset :: env where
  "not_a_urlset = (site [])\<lparr>parseStringPromise := (\<lambda>xml. Parsed None)\<rparr>"

definition missing_loc_sitemap :: "sitemap_entry list" where
  "missing_loc_sitemap = [Loc (JString menu), NoLoc]"

text \<open>
  The origin of an absolute URL with an authority: the scheme, \<^verbatim>\<open>://\<close> and the
  authority. A reference that starts with one slash resolves against a base URL to
  the origin of the base followed by the reference.
\<close>

definition origin_of :: "jsstring \<Rightarrow> jsstring" where
  "origin_of href =
     takeWhile (\<lambda>c. c \<noteq> 58) href @ take 3 (dropWhile (\<lambda>c. c \<noteq> 58) href) @
     takeWhile (\<lambda>c. c \<noteq> 47 \<and> c \<noteq> 63 \<and> c \<noteq> 35) (drop 3 (dropWhile (\<lambda>c. c \<noteq> 58) href))"

section \<open>Evaluating the small site\<close>

lemmas string_defs =
  js_def origin_def seed_def menu_def allergy_text_def seed_html_def menu_html_def

lemmas classify_defs =
  isPDF_def isAllergyKeyword_def ALLERGY_KEYWORDS_def RegExp_i_test_def
  canonicalize_def toLowerCase_def toLowerCase_unit_def endsWith_def

lemma menu_neq_seed: "menu \<noteq> seed" "menu_html \<noteq> seed_html"
  by (simp_all add: string_defs)

lemma site_fetch_seed: "fetch (site es) seed = Some \<lparr>ok = True, body = Some seed_html\<rparr>"
  by (simp add: site_def)

lemma site_fetch_menu: "fetch (site es) menu = Some \<lparr>ok = True, body = Some menu_html\<rparr>"
  by (simp add: site_def menu_neq_seed)

lemma site_cheerio_seed:
  "cheerio_a (site es) seed_html =
     [\<lparr>a_href = Some (js ''/docs/allergy.pdf''), a_text = allergy_text\<rparr>]"
  by (simp add: site_def)

lemma site_cheerio_menu:
  "cheerio_a (site es) menu_html =
     [\<lparr>a_href = Some (js ''/docs/Allergen.PDF''), a_text = js '' Chart ''\<rparr>,
      \<lparr>a_href = Some (js ''/docs/allergy.pdf?v=2''), a_text = js ''Menu''\<rparr>,
      \<lparr>a_href = None, a_text = js ''About''\<rparr>]"
  by (simp add: site_def menu_neq_seed)

lemma site_new_URL:
  "new_URL (site es) (js ''/docs/allergy.pdf'') seed =
     Some (js ''https://example.test/docs/allergy.pdf'')"
  "new_URL (site es) (js ''/docs/Allergen.PDF'') menu =
     Some (js ''https://example.test/docs/Allergen.PDF'')"
  "new_URL (site es) (js ''/docs/allergy.pdf?v=2'') menu =
     Some (js ''https://example.test/docs/allergy.pdf?v=2'')"
  by (simp_all add: site_def startsWith_def js_def origin_def seed_def menu_def)

lemma classify_seed_anchor:
  "isPDF (js ''https://example.test/docs/allergy.pdf'')"
  "isAllergyKeyword (js ''https://example.test/docs/allergy.pdf'') t"
  by (simp_all add: classify_defs js_def)

lemma classify_menu_anchors:
  "isPDF (js ''https://example.test/docs/Allergen.PDF'')"
  "isAllergyKeyword (js ''https://example.test/docs/Allergen.PDF'') t"
  "\<not> isPDF (js ''https://example.test/docs/allergy.pdf?v=2'')"
  "isAllergyKeyword (js ''https://example.test/docs/allergy.pdf?v=2'') t"
  by (simp_all add: classify_defs js_def)

lemma trim_texts:
  "trim allergy_text = allergy_text" "trim (js '' Chart '') = js ''Chart''"
  "allergy_text \<noteq> []" "js ''Chart'' \<noteq> []" "js ''/docs/allergy.pdf'' \<noteq> []"
  "js ''/docs/Allergen.PDF'' \<noteq> []" "js ''/docs/allergy.pdf?v=2'' \<noteq> []"
  by (simp_all add: trim_def isWhiteSpace_def allergy_text_def js_def)

lemma scan_seed_allow_all: "searchPDFsInPage (site es) seed (Some allow_all) = [seed_hit]"
  by (simp add: searchPDFsInPage_def isAllowedByRobots_def allow_all_def each_anchor_def
       site_fetch_seed site_cheerio_seed site_new_URL classify_seed_anchor trim_texts
       seed_hit_def)

lemma scan_menu_allow_all: "searchPDFsInPage (site es) menu (Some allow_all) = [menu_hit]"
  by (simp add: searchPDFsInPage_def isAllowedByRobots_def allow_all_def each_anchor_def
       site_fetch_menu site_cheerio_menu site_new_URL classify_menu_anchors trim_texts
       menu_hit_def)

lemma menu_anchors_satisfying:
  "filter (satisfies_rule (site es) menu) (cheerio_a (site es) menu_html) =
     [\<lparr>a_href = Some (js ''/docs/Allergen.PDF''), a_text = js '' Chart ''\<rparr>]"
  by (simp add: satisfies_rule_def site_cheerio_menu site_new_URL classify_menu_anchors
       trim_texts)

section \<open>The page scanner under a null policy\<close>

lemma each_anchor_null_policy: "foldl (each_anchor E url None) acc elements = acc"
  by (induction elements arbitrary: acc)
     (simp_all add: each_anchor_def Let_def split: option.splits)

lemma searchPDFsInPage_null_policy: "searchPDFsInPage E url None = []"
  by (simp add: searchPDFsInPage_def each_anchor_null_policy split: option.splits)

text \<open>
  C1. The specification's scenario: the seed page \<^verbatim>\<open>https://example.test/\<close> holds one
  anchor to \<^verbatim>\<open>/docs/allergy.pdf\<close> with a Japanese text, and the policy is null. The
  helper \<open>isAllowedByRobots\<close> allows the target under the null policy and the anchor
  satisfies the rule, yet the scan returns no hit; the expected hit is returned only
  under a policy object that allows every URL.
\<close>

theorem scenario_null_policy_no_hit:
  "isAllowedByRobots None seed \<and>
   isAllowedByRobots None (hit_url seed_hit) \<and>
   filter (satisfies_rule (site []) seed) (cheerio_a (site []) seed_html) =
     [\<lparr>a_href = Some (js ''/docs/allergy.pdf''), a_text = allergy_text\<rparr>] \<and>
   searchPDFsInPage (site []) seed None = [] \<and>
   searchPDFsInPage (site []) seed (Some allow_all) = [seed_hit]"
  by (simp add: isAllowedByRobots_def searchPDFsInPage_null_policy scan_seed_allow_all
       satisfies_rule_def site_cheerio_seed site_new_URL classify_seed_anchor trim_texts)

section \<open>The classification rule\<close>

lemma endsWith_iff: "endsWith s suffix \<longleftrightarrow> (\<exists>p. s = p @ suffix)"
proof
  assume "endsWith s suffix"
  then have "s = take (length s - length suffix) s @ suffix"
    by (metis append_take_drop_id endsWith_def)
  then show "\<exists>p. s = p @ suffix" ..
next
  assume "\<exists>p. s = p @ suffix"
  then show "endsWith s suffix" by (auto simp: endsWith_def)
qed

lemma isPDF_iff: "isPDF fullUrl \<longleftrightarrow> ends_with_ci fullUrl (js ''.pdf'')"
proof
  assume "isPDF fullUrl"
  then obtain p where p: "map toLowerCase_unit fullUrl = p @ js ''.pdf''"
    by (auto simp: isPDF_def endsWith_iff toLowerCase_def)
  then show "ends_with_ci fullUrl (js ''.pdf'')"
    unfolding ends_with_ci_def by (metis append_eq_map_conv)
next
  assume "ends_with_ci fullUrl (js ''.pdf'')"
  then show "isPDF fullUrl"
    by (auto simp: ends_with_ci_def isPDF_def endsWith_iff toLowerCase_def)
qed

lemma match_here_iff:
  "match_here f pat s \<longleftrightarrow> (\<exists>m q. s = m @ q \<and> map f m = map f pat)"
proof (induction f pat s rule: match_here.induct)
  case (1 f s)
  then show ?case by simp
next
  case (2 f k ks)
  then show ?case by simp
next
  case (3 f k ks c cs)
  show ?case
  proof
    assume "match_here f (k # ks) (c # cs)"
    then have "f k = f c" and "match_here f ks cs" by simp_all
    with 3 obtain m q where "cs = m @ q" "map f m = map f ks" by auto
    with \<open>f k = f c\<close> have "c # cs = (c # m) @ q \<and> map f (c # m) = map f (k # ks)" by simp
    then show "\<exists>m q. c # cs = m @ q \<and> map f m = map f (k # ks)" by blast
  next
    assume "\<exists>m q. c # cs = m @ q \<and> map f m = map f (k # ks)"
    then obtain m q where mq: "c # cs = m @ q" "map f m = map f (k # ks)" by blast
    then obtain m' where m': "m = c # m'" by (cases m) auto
    with mq have "cs = m' @ q" "map f m' = map f ks" "f c = f k" by auto
    with 3 show "match_here f (k # ks) (c # cs)" by auto
  qed
qed

lemma search_iff:
  "search f pat s \<longleftrightarrow> (\<exists>p m q. s = p @ m @ q \<and> map f m = map f pat)"
proof (induction s)
  case Nil
  then show ?case by (auto simp: match_here_iff)
next
  case (Cons c cs)
  show ?case
  proof
    assume "search f pat (c # cs)"
    then consider "match_here f pat (c # cs)" | "search f pat cs" by auto
    then show "\<exists>p m q. c # cs = p @ m @ q \<and> map f m = map f pat"
    proof cases
      case 1
      then obtain m q where "c # cs = [] @ m @ q \<and> map f m = map f pat"
        by (auto simp: match_here_iff)
      then show ?thesis by blast
    next
      case 2
      with Cons obtain p m q where "cs = p @ m @ q" "map f m = map f pat" by auto
      then have "c # cs = (c # p) @ m @ q \<and> map f m = map f pat" by simp
      then show ?thesis by blast
    qed
  next
    assume "\<exists>p m q. c # cs = p @ m @ q \<and> map f m = map f pat"
    then obtain p m q where pmq: "c # cs = p @ m @ q" "map f m = map f pat" by blast
    show "search f pat (c # cs)"
    proof (cases p)
      case Nil
      with pmq have "match_here f pat (c # cs)" by (auto simp: match_here_iff)
      then show ?thesis by simp
    next
      case (Cons a p')
      with pmq have "cs = p' @ m @ q" by simp
      with pmq Cons.IH have "search f pat cs" by blast
      then show ?thesis by simp
    qed
  qed
qed

lemma RegExp_i_test_iff: "RegExp_i_test keyword s \<longleftrightarrow> contains_ci keyword s"
  by (simp add: RegExp_i_test_def contains_ci_def search_iff)

text \<open>
  C2, as the code has it. A link passes the test of \<open>searchPDFsInPage\<close>
  (\<^verbatim>\<open>isPDF && isAllergyKeyword\<close>) if and only if (a) the whole absolute URL string, query
  and fragment included, ends case-insensitively with \<^verbatim>\<open>.pdf\<close>, and (b) some keyword of
  the list occurs case-insensitively as a substring of the absolute URL or of the
  trimmed link text.
\<close>

theorem classification_rule:
  "isPDF fullUrl \<and> isAllergyKeyword fullUrl linkText \<longleftrightarrow>
     ends_with_ci fullUrl (js ''.pdf'') \<and>
     (\<exists>keyword \<in> set ALLERGY_KEYWORDS.
        contains_ci keyword fullUrl \<or> contains_ci keyword linkText)"
  by (simp add: isPDF_iff isAllergyKeyword_def list_ex_iff RegExp_i_test_iff)

text \<open>
  C2 as stated fails on a URL with a query string: the path of
  \<^verbatim>\<open>https://example.test/docs/allergy.pdf?v=2\<close> ends with \<^verbatim>\<open>.pdf\<close> and the keyword
  \<^verbatim>\<open>allergy\<close> occurs in the URL, but the link does not pass the test, and the scan of the
  menu page, which holds it, does not return it.
\<close>

theorem classification_path_counterexample:
  "endsWith (toLowerCase (pathname (js ''https://example.test/docs/allergy.pdf?v=2'')))
     (js ''.pdf'') \<and>
   isAllergyKeyword (js ''https://example.test/docs/allergy.pdf?v=2'') (js ''Menu'') \<and>
   \<not> (isPDF (js ''https://example.test/docs/allergy.pdf?v=2'') \<and>
      isAllergyKeyword (js ''https://example.test/docs/allergy.pdf?v=2'') (js ''Menu'')) \<and>
   searchPDFsInPage (site []) menu (Some allow_all) = [menu_hit]"
proof -
  have "pathname (js ''https://example.test/docs/allergy.pdf?v=2'') = js ''/docs/allergy.pdf''"
    by (simp add: pathname_def js_def)
  then have "endsWith (toLowerCase (pathname (js ''https://example.test/docs/allergy.pdf?v=2'')))
     (js ''.pdf'')"
    by (simp add: js_def toLowerCase_def toLowerCase_unit_def endsWith_def)
  then show ?thesis
    by (simp add: classify_menu_anchors scan_menu_allow_all)
qed

section \<open>Counting the hits of a page\<close>

lemma each_anchor_allowing_policy:
  assumes "\<And>u. r u"
  shows "foldl (each_anchor E url (Some r)) acc elements =
           acc @ map (\<lambda>element.
             \<lparr>hit_url = the (new_URL E (the (a_href element)) url),
              hit_text = (if trim (a_text element) = [] then js ''PDF''
                          else trim (a_text element)),
              hit_source = url\<rparr>) (filter (satisfies_rule E url) elements)"
  using assms
  by (induction elements arbitrary: acc)
     (auto simp: each_anchor_def satisfies_rule_def isAllowedByRobots_def Let_def
           split: option.splits)

lemma scan_count_allowing_policy:
  assumes "\<And>u. r u" and "fetch E url = Some response" and "body response = Some html"
  shows "length (searchPDFsInPage E url (Some r)) =
           length (filter (satisfies_rule E url) (cheerio_a E html))"
  using assms
  by (simp add: searchPDFsInPage_def isAllowedByRobots_def each_anchor_allowing_policy)

text \<open>
  C3. The menu page has three anchors, of which exactly one satisfies the rule. Under the
  null policy, which allows every URL, the scan returns no hit instead of one; under a
  policy object that allows every URL it returns the one hit.
\<close>

theorem menu_page_null_policy_count:
  "length (cheerio_a (site []) menu_html) = 3 \<and>
   length (filter (satisfies_rule (site []) menu) (cheerio_a (site []) menu_html)) = 1 \<and>
   isAllowedByRobots None menu \<and>
   length (searchPDFsInPage (site []) menu None) = 0 \<and>
   length (searchPDFsInPage (site []) menu (Some allow_all)) = 1"
  by (simp add: menu_anchors_satisfying searchPDFsInPage_null_policy scan_menu_allow_all
       isAllowedByRobots_def) (simp add: site_cheerio_menu)

section \<open>The batch scheduler: batches, order and scans in flight\<close>

lemma chunks_concat: "0 < n \<Longrightarrow> concat (chunks n xs) = xs"
proof (induction n xs rule: chunks.induct)
  case (1 n xs)
  show ?case
  proof (cases "xs = []")
    case True
    then show ?thesis by (simp add: chunks.simps)
  next
    case False
    with 1 have "concat (chunks n (drop n xs)) = drop n xs" by simp
    with False 1(2) show ?thesis by (subst chunks.simps) simp
  qed
qed

lemma chunks_nth:
  "0 < n \<Longrightarrow> i < length (chunks n xs) \<Longrightarrow>
     chunks n xs ! i = take n (drop (i * n) xs) \<and> i * n < length xs"
proof (induction n xs arbitrary: i rule: chunks.induct)
  case (1 n xs)
  show ?case
  proof (cases "xs = []")
    case True
    with 1(3) show ?thesis by (simp add: chunks.simps)
  next
    case False
    have unfold: "chunks n xs = take n xs # chunks n (drop n xs)"
      using False 1(2) by (subst chunks.simps) simp
    show ?thesis
    proof (cases i)
      case 0
      with unfold False show ?thesis by simp
    next
      case (Suc j)
      with unfold 1(3) have "j < length (chunks n (drop n xs))" by simp
      with 1(1)[of j] False 1(2)
      have "chunks n (drop n xs) ! j = take n (drop (j * n) (drop n xs)) \<and>
            j * n < length (drop n xs)" by simp
      then have nth: "chunks n (drop n xs) ! j = take n (drop (n + j * n) xs)"
        and "j * n < length xs - n" by (simp_all add: add.commute)
      then have "n + j * n < length xs" by arith
      with unfold Suc nth show ?thesis by simp
    qed
  qed
qed

lemma chunks_5_2: "length xs = 5 \<Longrightarrow> map length (chunks 2 xs) = [2, 2, 1]"
proof -
  assume "length xs = 5"
  then obtain a b c d e where "xs = [a, b, c, d, e]"
    by (auto simp: length_Suc_conv eval_nat_numeral)
  then show ?thesis by (simp add: chunks.simps)
qed

lemma loop_chunks:
  assumes "0 < maxConcurrent"
  shows "searchSubpagesParallel_loop scan subpageUrls maxConcurrent i acc bs =
           Some (acc @ concat (map (\<lambda>batch. concat (map scan batch))
                                     (chunks maxConcurrent (drop i subpageUrls))),
                 bs @ chunks maxConcurrent (drop i subpageUrls))"
proof (induction "length subpageUrls - i" arbitrary: i acc bs rule: less_induct)
  case less
  show ?case
  proof (cases "i < length subpageUrls")
    case False
    then show ?thesis
      by (subst searchSubpagesParallel_loop.simps) (simp add: chunks.simps)
  next
    case True
    then have nonempty: "drop i subpageUrls \<noteq> []" by simp
    have smaller: "length subpageUrls - (i + maxConcurrent) < length subpageUrls - i"
      using True assms by arith
    have unfold: "chunks maxConcurrent (drop i subpageUrls) =
        slice subpageUrls i (i + maxConcurrent) #
        chunks maxConcurrent (drop (i + maxConcurrent) subpageUrls)"
      using nonempty assms
      by (subst chunks.simps) (simp add: slice_def add.commute)
    show ?thesis
      by (subst searchSubpagesParallel_loop.simps)
         (simp add: True less[OF smaller] unfold)
  qed
qed

text \<open>With \<open>maxConcurrent = 0\<close> and a URL to scan, the loop does not return.\<close>

lemma loop_zero_never_returns:
  assumes "searchSubpagesParallel_loop scan subpageUrls maxConcurrent i acc bs = Some res"
  shows "maxConcurrent = 0 \<longrightarrow> \<not> i < length subpageUrls"
proof (rule searchSubpagesParallel_loop.raw_induct
        [where P = "\<lambda>scan urls m i acc bs res. m = 0 \<longrightarrow> \<not> i < length urls", OF _ assms],
       goal_cases)
  case (1 f scan urls m i acc bs res)
  show ?case
  proof (intro impI notI)
    assume zero: "m = 0" and less: "i < length urls"
    with 1(2) have "f scan urls m (i + m) (acc @ concat (map scan (slice urls i (i + m))))
                      (bs @ [slice urls i (i + m)]) = Some res"
      by simp
    from 1(1)[OF this] zero less show False by simp
  qed
qed

lemma searchSubpagesParallel_zero:
  "subpageUrls \<noteq> [] \<Longrightarrow> searchSubpagesParallel E subpageUrls robots 0 = None"
proof (cases "searchSubpagesParallel E subpageUrls robots 0")
  case None
  then show ?thesis .
next
  case (Some res)
  then have "\<not> 0 < length subpageUrls"
    using loop_zero_never_returns[of _ subpageUrls 0 0 "[]" "[]" res]
    by (simp add: searchSubpagesParallel_def)
  moreover assume "subpageUrls \<noteq> []"
  ultimately show ?thesis by simp
qed

lemma batch_trace_net:
  "batch_trace pending running events \<Longrightarrow> in_flight events = - int (length running)"
proof (induction pending running events rule: batch_trace.induct)
  case (1 pending running)
  then show ?case by simp
next
  case (2 pending running u events)
  then show ?case by simp
next
  case (3 pending running u events)
  then have mem: "u \<in> set running"
    and net: "in_flight events = - int (length (remove1 u running))"
    by simp_all
  from mem have "0 < length running" by (cases running) auto
  with mem net show ?case by (simp add: length_remove1 of_nat_diff)
qed

lemma batch_trace_bound:
  "batch_trace pending running events \<Longrightarrow>
     in_flight (take n events) \<le> int (length pending)"
proof (induction pending running events arbitrary: n rule: batch_trace.induct)
  case (1 pending running)
  then show ?case by simp
next
  case (2 pending running u events)
  show ?case
  proof (cases n)
    case 0
    then show ?thesis by simp
  next
    case (Suc m)
    from 2 have mem: "u \<in> set pending"
      and le: "in_flight (take m events) \<le> int (length (remove1 u pending))" by simp_all
    from mem have "0 < length pending" by (cases pending) auto
    with mem le have "in_flight (take m events) + 1 \<le> int (length pending)"
      by (simp add: length_remove1 of_nat_diff)
    then show ?thesis using Suc by simp
  qed
next
  case (3 pending running u events)
  show ?case
  proof (cases n)
    case 0
    then show ?thesis by simp
  next
    case (Suc m)
    from 3 have "in_flight (take m events) \<le> int (length pending)" by simp
    then show ?thesis using Suc by simp
  qed
qed

lemma in_flight_append: "in_flight (xs @ ys) = in_flight xs + in_flight ys"
  by (induction xs rule: in_flight.induct) simp_all

lemma run_trace_bound:
  "run_trace batches traces \<Longrightarrow> \<forall>batch \<in> set batches. length batch \<le> m \<Longrightarrow>
     in_flight (take n (concat traces)) \<le> int m"
proof (induction batches traces arbitrary: n rule: run_trace.induct)
  case 1
  then show ?case by simp
next
  case (2 batch batches events traces)
  then have bt: "batch_trace batch [] events" and rt: "run_trace batches traces"
    and len: "length batch \<le> m" and rest: "\<forall>batch \<in> set batches. length batch \<le> m"
    by simp_all
  have split: "in_flight (take n (concat (events # traces))) =
      in_flight (take n events) + in_flight (take (n - length events) (concat traces))"
    by (simp add: in_flight_append)
  show ?case
  proof (cases "n \<le> length events")
    case True
    then have "in_flight (take (n - length events) (concat traces)) = 0" by simp
    with split batch_trace_bound[OF bt, of n] len show ?thesis by simp
  next
    case False
    then have "in_flight (take n events) = 0" using batch_trace_net[OF bt] by simp
    moreover have "in_flight (take (n - length events) (concat traces)) \<le> int m"
      using 2 rt rest by simp
    ultimately show ?thesis using split by simp
  qed
qed simp_all

lemma concat_map_concat:
  "concat (map (\<lambda>batch. concat (map f batch)) bs) = concat (map f (concat bs))"
  by (induction bs) simp_all

lemma chunks_length_le: "0 < n \<Longrightarrow> batch \<in> set (chunks n xs) \<Longrightarrow> length batch \<le> n"
  by (metis chunks_nth in_set_conv_nth length_take min.cobounded2)

lemma searchSubpagesParallel_chunks:
  "0 < maxConcurrent \<Longrightarrow>
     searchSubpagesParallel E subpageUrls robots maxConcurrent =
       Some (concat (map (\<lambda>batch. concat (map (\<lambda>url. searchPDFsInPage E url robots) batch))
                       (chunks maxConcurrent subpageUrls)),
             chunks maxConcurrent subpageUrls)"
  by (simp add: searchSubpagesParallel_def loop_chunks)

text \<open>
  C6. For a positive \<open>maxConcurrent\<close> the scheduler returns. Its batches are the
  consecutive slices of \<open>maxConcurrent\<close> URLs (batch \<open>i\<close> starts at index
  \<open>i * maxConcurrent\<close>, only the last may be shorter), so five URLs with
  \<open>maxConcurrent = 2\<close> make batches of sizes 2, 2, 1. The hits are the batches' hits
  concatenated in batch order. In every trace in which each batch ends before the next
  starts, never more than \<open>maxConcurrent\<close> scans are in flight.
\<close>

theorem batch_scheduler:
  assumes "0 < maxConcurrent"
  shows "\<exists>hits batches.
     searchSubpagesParallel E subpageUrls robots maxConcurrent = Some (hits, batches) \<and>
     batches = chunks maxConcurrent subpageUrls \<and>
     concat batches = subpageUrls \<and>
     (\<forall>i < length batches.
        batches ! i = take maxConcurrent (drop (i * maxConcurrent) subpageUrls) \<and>
        i * maxConcurrent < length subpageUrls) \<and>
     (length subpageUrls = 5 \<and> maxConcurrent = 2 \<longrightarrow> map length batches = [2, 2, 1]) \<and>
     hits = concat (map (\<lambda>batch. concat (map (\<lambda>url. searchPDFsInPage E url robots) batch))
                     batches) \<and>
     (\<forall>traces n. run_trace batches traces \<longrightarrow>
        in_flight (take n (concat traces)) \<le> int maxConcurrent)"
proof -
  let ?batches = "chunks maxConcurrent subpageUrls"
  have bound: "\<forall>batch \<in> set ?batches. length batch \<le> maxConcurrent"
    using assms chunks_length_le by blast
  have "\<forall>traces n. run_trace ?batches traces \<longrightarrow>
          in_flight (take n (concat traces)) \<le> int maxConcurrent"
    using run_trace_bound[OF _ bound] by blast
  moreover have "\<forall>i < length ?batches.
        ?batches ! i = take maxConcurrent (drop (i * maxConcurrent) subpageUrls) \<and>
        i * maxConcurrent < length subpageUrls"
    using assms chunks_nth by blast
  moreover have "length subpageUrls = 5 \<and> maxConcurrent = 2 \<longrightarrow>
        map length ?batches = [2, 2, 1]"
    using chunks_5_2 by blast
  ultimately show ?thesis
    using assms by (simp add: searchSubpagesParallel_chunks chunks_concat)
qed

lemma site_fetch_unknown:
  "fetch (site es) (js ''a'') = None" "fetch (site es) (js ''b'') = None"
  "fetch (site es) (js ''c'') = None"
  by (simp_all add: site_def string_defs)

lemma scan_unknown:
  "searchPDFsInPage (site es) (js ''a'') robots = []"
  "searchPDFsInPage (site es) (js ''b'') robots = []"
  "searchPDFsInPage (site es) (js ''c'') robots = []"
  by (simp_all add: searchPDFsInPage_def site_fetch_unknown)

lemma chunks_five_urls:
  "chunks 2 five_urls = [[seed, js ''a''], [menu, js ''b''], [js ''c'']]"
  by (simp add: five_urls_def chunks.simps)

lemma five_traces_ok: "run_trace (chunks 2 five_urls) five_traces"
  by (simp add: chunks_five_urls five_traces_def)

text \<open>Five URLs with \<open>maxConcurrent = 2\<close> on the small site.\<close>

theorem batch_scheduler_witness:
  "(0::nat) < 2 \<and> length five_urls = 5 \<and>
   (\<exists>batches.
      searchSubpagesParallel (site []) five_urls (Some allow_all) 2 =
        Some ([seed_hit, menu_hit], batches) \<and>
      map length batches = [2, 2, 1] \<and>
      batches ! 2 = [js ''c''] \<and>
      run_trace batches five_traces \<and>
      in_flight (take 2 (concat five_traces)) \<le> 2)"
proof -
  have pos: "(0::nat) < 2" by simp
  have len: "length five_urls = 5" by (simp add: five_urls_def)
  from batch_scheduler[OF pos, of "site []" five_urls "Some allow_all"]
  obtain hits batches where
    run: "searchSubpagesParallel (site []) five_urls (Some allow_all) 2 = Some (hits, batches)"
    and batches: "batches = chunks 2 five_urls"
    and nth: "\<forall>i < length batches. batches ! i = take 2 (drop (i * 2) five_urls) \<and>
                i * 2 < length five_urls"
    and sizes: "length five_urls = 5 \<and> (2::nat) = 2 \<longrightarrow> map length batches = [2, 2, 1]"
    and hits: "hits = concat (map (\<lambda>batch. concat (map (\<lambda>url.
                 searchPDFsInPage (site []) url (Some allow_all)) batch)) batches)"
    and flight: "\<forall>traces n. run_trace batches traces \<longrightarrow>
                   in_flight (take n (concat traces)) \<le> int 2"
    by auto
  from hits batches have "hits = [seed_hit, menu_hit]"
    by (simp add: chunks_five_urls scan_seed_allow_all scan_menu_allow_all scan_unknown)
  moreover from batches have tr: "run_trace batches five_traces"
    by (simp add: five_traces_ok)
  moreover from flight tr have "in_flight (take 2 (concat five_traces)) \<le> 2" by fastforce
  moreover from sizes len have lens: "map length batches = [2, 2, 1]" by simp
  moreover have "batches ! 2 = [js ''c'']"
  proof -
    from lens have "length (map length batches) = 3" by simp
    then have "2 < length batches" by simp
    with nth have "batches ! 2 = take 2 (drop (2 * 2) five_urls)" by blast
    then show ?thesis by (simp add: five_urls_def)
  qed
  ultimately show ?thesis using run pos len by simp
qed

lemma each_anchor_step_source:
  "\<forall>hit \<in> set acc. hit_source hit = url \<Longrightarrow>
     \<forall>hit \<in> set (each_anchor E url robots acc element). hit_source hit = url"
  by (auto simp: each_anchor_def Let_def split: option.splits)

lemma each_anchor_source:
  "\<forall>hit \<in> set acc. hit_source hit = url \<Longrightarrow>
     \<forall>hit \<in> set (foldl (each_anchor E url robots) acc elements). hit_source hit = url"
proof (induction elements arbitrary: acc)
  case Nil
  then show ?case by simp
next
  case (Cons element elements)
  from Cons.prems have "\<forall>hit \<in> set (each_anchor E url robots acc element). hit_source hit = url"
    by (rule each_anchor_step_source)
  then show ?case using Cons.IH by simp
qed

lemma searchPDFsInPage_source:
  "hit \<in> set (searchPDFsInPage E url robots) \<Longrightarrow> hit_source hit = url"
  using each_anchor_source[of "[]" url E robots]
  by (auto simp: searchPDFsInPage_def split: if_splits option.splits)

lemma sources_of_scan:
  "map hit_source (searchPDFsInPage E url robots) =
     replicate (length (searchPDFsInPage E url robots)) url"
  by (simp add: map_replicate_const[symmetric] searchPDFsInPage_source cong: map_cong)

text \<open>
  C10. For a positive \<open>maxConcurrent\<close> the hits returned are the hits of the input URLs
  in input order: the list is the concatenation of the scans of the URLs as they stand in
  the input, and the sources of the hits are the input URLs in input order, each as often
  as its page had hits.
\<close>

theorem scheduler_preserves_input_order:
  assumes "0 < maxConcurrent"
  shows "\<exists>hits batches.
     searchSubpagesParallel E subpageUrls robots maxConcurrent = Some (hits, batches) \<and>
     hits = concat (map (\<lambda>url. searchPDFsInPage E url robots) subpageUrls) \<and>
     map hit_source hits =
       concat (map (\<lambda>url. replicate (length (searchPDFsInPage E url robots)) url)
                 subpageUrls)"
proof -
  have "map hit_source (concat (map (\<lambda>url. searchPDFsInPage E url robots) subpageUrls)) =
       concat (map (\<lambda>url. replicate (length (searchPDFsInPage E url robots)) url)
                 subpageUrls)"
    by (simp add: map_concat comp_def sources_of_scan)
  with assms show ?thesis
    by (simp add: searchSubpagesParallel_chunks concat_map_concat chunks_concat)
qed

text \<open>The same five URLs: the seed page's hit comes before the menu page's hit.\<close>

theorem scheduler_preserves_input_order_witness:
  "(0::nat) < 2 \<and>
   (\<exists>batches. searchSubpagesParallel (site []) five_urls (Some allow_all) 2 =
      Some ([seed_hit, menu_hit], batches)) \<and>
   map hit_source [seed_hit, menu_hit] = [seed, menu]"
proof -
  have pos: "(0::nat) < 2" by simp
  from scheduler_preserves_input_order[OF pos, of "site []" five_urls "Some allow_all"]
  obtain hits batches where
    run: "searchSubpagesParallel (site []) five_urls (Some allow_all) 2 = Some (hits, batches)"
    and hits: "hits = concat (map (\<lambda>url. searchPDFsInPage (site []) url (Some allow_all))
                               five_urls)"
    by blast
  from hits have "hits = [seed_hit, menu_hit]"
    by (simp add: five_urls_def scan_seed_allow_all scan_menu_allow_all scan_unknown)
  with run show ?thesis by (simp add: seed_hit_def menu_hit_def)
qed

section \<open>The orchestrator: phases and runs\<close>

lemma fold_insert_set: "fold insert xs S = set xs \<union> S"
  by (induction xs arbitrary: S) auto

lemma fold_insert_image: "fold (\<lambda>x. insert (f x)) xs S = f ` set xs \<union> S"
  by (induction xs arbitrary: S) auto

lemma sitemap_loop_scanned:
  "searchSitemapUrlsForPdfs_loop E robots urls acc scanned = (res, scanned') \<Longrightarrow>
     \<exists>new. scanned' = scanned @ new \<and> JString ` set new \<subseteq> set urls"
proof (induction urls arbitrary: acc scanned)
  case Nil
  then show ?case by simp
next
  case (Cons v rest)
  show ?case
  proof (cases v)
    case JObject
    with Cons.prems have "scanned' = scanned @ []" by simp
    then show ?thesis by (intro exI[of _ "[]"]) simp
  next
    case (JString sitemapUrl)
    with Cons.prems consider
        (threw) "scanned' = scanned @ [sitemapUrl]"
      | (went_on) acc' where
          "searchSitemapUrlsForPdfs_loop E robots rest acc' (scanned @ [sitemapUrl]) =
             (res, scanned')"
      by (auto split: if_splits sum.splits prod.splits)
    then show ?thesis
    proof cases
      case threw
      with JString show ?thesis by (intro exI[of _ "[sitemapUrl]"]) simp
    next
      case went_on
      from Cons.IH[OF went_on] obtain new where
        "scanned' = (scanned @ [sitemapUrl]) @ new" and "JString ` set new \<subseteq> set rest"
        by blast
      with JString have "scanned' = scanned @ (sitemapUrl # new) \<and>
          JString ` set (sitemapUrl # new) \<subseteq> set (v # rest)" by auto
      then show ?thesis by blast
    qed
  qed
qed

lemma seedScan_simps:
  "pdfLinks (seedScan E siteUrl robots st) = pdfLinks st @ searchPDFsInPage E siteUrl robots"
  "visitedUrls (seedScan E siteUrl robots st) = insert (JString siteUrl) (visitedUrls st)"
  "scans (seedScan E siteUrl robots st) = scans st @ [(Seed, siteUrl)]"
  by (simp_all add: seedScan_def)

lemma sitemapPhase_props:
  assumes "sitemapPhase E siteUrl robots st = (thrown, st')"
  shows "visitedUrls st \<subseteq> visitedUrls st'"
    and "\<exists>new. scans st' = scans st @ map (Pair Sitemap) new \<and>
           (\<forall>u \<in> set new. JString u \<notin> visitedUrls st \<and> JString u \<in> visitedUrls st')"
    and "thrown \<noteq> None \<Longrightarrow> pdfLinks st' = pdfLinks st"
proof -
  let ?urls = "fst (getSitemapUrls E siteUrl)"
  let ?unvisited = "filter (\<lambda>url. url \<notin> visitedUrls st) ?urls"
  obtain res scanned where loop: "searchSitemapUrlsForPdfs E ?unvisited robots = (res, scanned)"
    by (cases "searchSitemapUrlsForPdfs E ?unvisited robots") auto
  then obtain new where "scanned = [] @ new" and sub: "JString ` set new \<subseteq> set ?unvisited"
    unfolding searchSitemapUrlsForPdfs_def using sitemap_loop_scanned by blast
  then have scanned: "\<forall>u \<in> set scanned. JString u \<notin> visitedUrls st \<and> JString u \<in> set ?unvisited"
    by auto
  have v: "visitedUrls st' = visitedUrls st \<or> visitedUrls st' = set ?unvisited \<union> visitedUrls st"
    using assms loop
    by (auto simp: sitemapPhase_def Let_def fold_insert_set split: if_splits sum.splits)
  then show "visitedUrls st \<subseteq> visitedUrls st'" by auto
  have "scans st' = scans st @ map (Pair Sitemap) [] \<or>
        (scans st' = scans st @ map (Pair Sitemap) scanned \<and>
         visitedUrls st' = set ?unvisited \<union> visitedUrls st)"
    using assms loop
    by (auto simp: sitemapPhase_def Let_def fold_insert_set split: if_splits sum.splits)
  then show "\<exists>new. scans st' = scans st @ map (Pair Sitemap) new \<and>
           (\<forall>u \<in> set new. JString u \<notin> visitedUrls st \<and> JString u \<in> visitedUrls st')"
  proof
    assume "scans st' = scans st @ map (Pair Sitemap) []"
    then have "scans st' = scans st @ map (Pair Sitemap) [] \<and>
           (\<forall>u \<in> set []. JString u \<notin> visitedUrls st \<and> JString u \<in> visitedUrls st')" by simp
    then show ?thesis by blast
  next
    assume "scans st' = scans st @ map (Pair Sitemap) scanned \<and>
         visitedUrls st' = set ?unvisited \<union> visitedUrls st"
    with scanned have "scans st' = scans st @ map (Pair Sitemap) scanned \<and>
           (\<forall>u \<in> set scanned. JString u \<notin> visitedUrls st \<and> JString u \<in> visitedUrls st')"
      by auto
    then show ?thesis by blast
  qed
  show "thrown \<noteq> None \<Longrightarrow> pdfLinks st' = pdfLinks st"
    using assms loop
    by (auto simp: sitemapPhase_def Let_def split: if_splits sum.splits)
qed

lemma subpagePhase_props:
  "\<exists>st'. subpagePhase E siteUrl robots st = Some st' \<and>
     visitedUrls st \<subseteq> visitedUrls st' \<and>
     (\<exists>new. scans st' = scans st @ map (Pair Subpage) new \<and>
        (\<forall>u \<in> set new. JString u \<notin> visitedUrls st \<and> JString u \<in> visitedUrls st'))"
proof -
  let ?unvisited =
    "filter (\<lambda>url. JString url \<notin> visitedUrls st) (getSubpageUrls E siteUrl robots)"
  let ?st1 = "st\<lparr>visitedUrls := JString ` set ?unvisited \<union> visitedUrls st\<rparr>"
  show ?thesis
  proof (cases "?unvisited = []")
    case True
    then have "subpagePhase E siteUrl robots st = Some ?st1"
      by (simp add: subpagePhase_def Let_def fold_insert_image)
    moreover have "scans ?st1 = scans st @ map (Pair Subpage) [] \<and>
        (\<forall>u \<in> set []. JString u \<notin> visitedUrls st \<and> JString u \<in> visitedUrls ?st1)"
      by simp
    moreover have "visitedUrls st \<subseteq> visitedUrls ?st1" by simp
    ultimately show ?thesis by blast
  next
    case False
    let ?hits = "concat (map (\<lambda>batch. concat (map (\<lambda>url. searchPDFsInPage E url robots) batch))
                          (chunks 2 ?unvisited))"
    let ?st2 = "?st1\<lparr>pdfLinks := pdfLinks ?st1 @ ?hits,
                     scans := scans ?st1 @ map (Pair Subpage) ?unvisited\<rparr>"
    have "searchSubpagesParallel E ?unvisited robots 2 = Some (?hits, chunks 2 ?unvisited)"
      by (rule searchSubpagesParallel_chunks) simp
    with False have "subpagePhase E siteUrl robots st = Some ?st2"
      by (simp add: subpagePhase_def Let_def fold_insert_image chunks_concat)
    moreover have "visitedUrls st \<subseteq> visitedUrls ?st2" by simp
    moreover have "scans ?st2 = scans st @ map (Pair Subpage) ?unvisited \<and>
        (\<forall>u \<in> set ?unvisited. JString u \<notin> visitedUrls st \<and> JString u \<in> visitedUrls ?st2)"
      by simp
    ultimately show ?thesis by blast
  qed
qed

lemma run_caught:
  assumes "sitemapPhase E siteUrl (fst (getRobotsRules E siteUrl))
             (seedScan E siteUrl (fst (getRobotsRules E siteUrl))
                \<lparr>pdfLinks = [], visitedUrls = {}, scans = []\<rparr>) = (Some err, s2)"
  shows "findAllergyPDFs E siteUrl =
           Some \<lparr>result = pdfLinks s2, outcome = Caught err,
                 history = [\<lparr>pdfLinks = [], visitedUrls = {}, scans = []\<rparr>,
                            seedScan E siteUrl (fst (getRobotsRules E siteUrl))
                              \<lparr>pdfLinks = [], visitedUrls = {}, scans = []\<rparr>, s2],
                 robots_requests = snd (getRobotsRules E siteUrl)\<rparr>"
  using assms by (simp add: findAllergyPDFs_def Let_def)

lemma run_returned:
  assumes "sitemapPhase E siteUrl (fst (getRobotsRules E siteUrl))
             (seedScan E siteUrl (fst (getRobotsRules E siteUrl))
                \<lparr>pdfLinks = [], visitedUrls = {}, scans = []\<rparr>) = (None, s2)"
    and "subpagePhase E siteUrl (fst (getRobotsRules E siteUrl)) s2 = Some s3"
  shows "findAllergyPDFs E siteUrl =
           Some \<lparr>result = pdfLinks s3, outcome = Returned,
                 history = [\<lparr>pdfLinks = [], visitedUrls = {}, scans = []\<rparr>,
                            seedScan E siteUrl (fst (getRobotsRules E siteUrl))
                              \<lparr>pdfLinks = [], visitedUrls = {}, scans = []\<rparr>, s2, s3],
                 robots_requests = snd (getRobotsRules E siteUrl)\<rparr>"
  using assms by (simp add: findAllergyPDFs_def Let_def)

lemma run_cases:
  fixes E siteUrl
  defines "robots \<equiv> fst (getRobotsRules E siteUrl)"
  defines "s0 \<equiv> \<lparr>pdfLinks = [], visitedUrls = {}, scans = []\<rparr>"
  defines "s1 \<equiv> seedScan E siteUrl robots s0"
  obtains (caught) err s2 where
      "sitemapPhase E siteUrl robots s1 = (Some err, s2)"
      "findAllergyPDFs E siteUrl =
         Some \<lparr>result = pdfLinks s2, outcome = Caught err, history = [s0, s1, s2],
               robots_requests = snd (getRobotsRules E siteUrl)\<rparr>"
  | (returned) s2 s3 where
      "sitemapPhase E siteUrl robots s1 = (None, s2)"
      "subpagePhase E siteUrl robots s2 = Some s3"
      "findAllergyPDFs E siteUrl =
         Some \<lparr>result = pdfLinks s3, outcome = Returned, history = [s0, s1, s2, s3],
               robots_requests = snd (getRobotsRules E siteUrl)\<rparr>"
proof -
  obtain thrown s2 where phase: "sitemapPhase E siteUrl robots s1 = (thrown, s2)"
    by (cases "sitemapPhase E siteUrl robots s1") auto
  show thesis
  proof (cases thrown)
    case (Some err)
    with phase have p: "sitemapPhase E siteUrl robots s1 = (Some err, s2)" by simp
    then show thesis
      using caught[OF p] run_caught[of E siteUrl err s2]
      unfolding robots_def s0_def s1_def by blast
  next
    case None
    with phase have p: "sitemapPhase E siteUrl robots s1 = (None, s2)" by simp
    obtain s3 where sub: "subpagePhase E siteUrl robots s2 = Some s3"
      using subpagePhase_props[of E siteUrl robots s2] by blast
    show thesis
      using returned[OF p sub] run_returned[of E siteUrl s2 s3] p sub
      unfolding robots_def s0_def s1_def by blast
  qed
qed

lemma scans_one_phase:
  assumes "\<forall>u \<in> set new1. u \<noteq> siteUrl"
    and "\<forall>u \<in> set new2. u \<noteq> siteUrl \<and> u \<notin> set new1"
    and "(p, url) \<in> set ([(Seed, siteUrl)] @ map (Pair Sitemap) new1 @ map (Pair Subpage) new2)"
    and "(q, url) \<in> set ([(Seed, siteUrl)] @ map (Pair Sitemap) new1 @ map (Pair Subpage) new2)"
  shows "p = q"
  using assms by auto

lemma marked_scans:
  assumes "\<forall>u \<in> set new1. JString u \<in> V"
    and "\<forall>u \<in> set new2. JString u \<in> V"
    and "JString siteUrl \<in> V"
    and "(p, url) \<in> set ([(Seed, siteUrl)] @ map (Pair Sitemap) new1 @ map (Pair Subpage) new2)"
  shows "JString url \<in> V"
  using assms by auto

text \<open>
  C5. Every run of the orchestrator returns, and in it: the visited set of each state of
  the run is contained in the visited set of every later state (URLs are only added);
  no URL is scanned in two different phases; every scanned URL is in the visited set.
  The sitemap and sub-page phases scan only URLs that were not in the visited set when
  the phase began (\<open>sitemapPhase_props\<close>, \<open>subpagePhase_props\<close>).
\<close>

theorem visited_set_grows_and_phases_disjoint:
  "\<exists>r. findAllergyPDFs E siteUrl = Some r \<and>
     sorted_wrt (\<lambda>before after. visitedUrls before \<subseteq> visitedUrls after) (history r) \<and>
     (\<forall>p q url. (p, url) \<in> set (scans (last (history r))) \<and>
                 (q, url) \<in> set (scans (last (history r))) \<longrightarrow> p = q) \<and>
     (\<forall>p url. (p, url) \<in> set (scans (last (history r))) \<longrightarrow>
               JString url \<in> visitedUrls (last (history r)))"
proof -
  define robots where "robots = fst (getRobotsRules E siteUrl)"
  define s0 :: crawl where "s0 = \<lparr>pdfLinks = [], visitedUrls = {}, scans = []\<rparr>"
  define s1 where "s1 = seedScan E siteUrl robots s0"
  have v1: "visitedUrls s1 = {JString siteUrl}" and sc1: "scans s1 = [(Seed, siteUrl)]"
    by (simp_all add: s1_def s0_def seedScan_simps)
  have v0: "visitedUrls s0 = {}" by (simp add: s0_def)
  show ?thesis
  proof (cases rule: run_cases[of E siteUrl])
    case (caught err s2)
    then have phase: "sitemapPhase E siteUrl robots s1 = (Some err, s2)"
      by (simp add: robots_def s0_def s1_def)
    from sitemapPhase_props(1)[OF phase] have m12: "visitedUrls s1 \<subseteq> visitedUrls s2" .
    from sitemapPhase_props(2)[OF phase] obtain new1 where
      "scans s2 = scans s1 @ map (Pair Sitemap) new1"
      and n1: "\<forall>u \<in> set new1. JString u \<notin> visitedUrls s1 \<and> JString u \<in> visitedUrls s2"
      by blast
    with sc1 have sc2: "scans s2 = [(Seed, siteUrl)] @ map (Pair Sitemap) new1 @ map (Pair Subpage) []"
      by simp
    obtain r where run: "findAllergyPDFs E siteUrl = Some r"
      and hist: "history r = [s0, s1, s2]"
      using caught(2) by (simp add: robots_def s0_def s1_def)
    have chain: "sorted_wrt (\<lambda>before after. visitedUrls before \<subseteq> visitedUrls after) (history r)"
      using m12 v0 by (simp add: hist)
    have fresh: "\<forall>u \<in> set new1. u \<noteq> siteUrl" using n1 v1 by auto
    have fresh2: "\<forall>u \<in> set []. u \<noteq> siteUrl \<and> u \<notin> set new1" by simp
    have final: "scans (last (history r)) =
        [(Seed, siteUrl)] @ map (Pair Sitemap) new1 @ map (Pair Subpage) []"
      by (simp add: hist sc2)
    have one: "\<forall>p q url. (p, url) \<in> set (scans (last (history r))) \<and>
                 (q, url) \<in> set (scans (last (history r))) \<longrightarrow> p = q"
    proof (intro allI impI, elim conjE)
      fix p q url
      assume "(p, url) \<in> set (scans (last (history r)))"
        and "(q, url) \<in> set (scans (last (history r)))"
      then show "p = q" unfolding final by (rule scans_one_phase[OF fresh fresh2])
    qed
    have in2: "JString siteUrl \<in> visitedUrls s2" using m12 v1 by auto
    have in2': "\<forall>u \<in> set new1. JString u \<in> visitedUrls s2"
      "\<forall>u \<in> set []. JString u \<in> visitedUrls s2"
      using n1 by simp_all
    have lastv: "visitedUrls (last (history r)) = visitedUrls s2" by (simp add: hist)
    have marked: "\<forall>p url. (p, url) \<in> set (scans (last (history r))) \<longrightarrow>
               JString url \<in> visitedUrls (last (history r))"
    proof (intro allI impI)
      fix p url
      assume "(p, url) \<in> set (scans (last (history r)))"
      then show "JString url \<in> visitedUrls (last (history r))"
        unfolding final lastv by (rule marked_scans[OF in2'(1) in2'(2) in2])
    qed
    from run chain one marked show ?thesis by (intro exI[of _ r] conjI)
  next
    case (returned s2 s3)
    then have phase: "sitemapPhase E siteUrl robots s1 = (None, s2)"
      and sub: "subpagePhase E siteUrl robots s2 = Some s3"
      by (simp_all add: robots_def s0_def s1_def)
    from sitemapPhase_props(1)[OF phase] have m12: "visitedUrls s1 \<subseteq> visitedUrls s2" .
    from sitemapPhase_props(2)[OF phase] obtain new1 where
      "scans s2 = scans s1 @ map (Pair Sitemap) new1"
      and n1: "\<forall>u \<in> set new1. JString u \<notin> visitedUrls s1 \<and> JString u \<in> visitedUrls s2"
      by blast
    with sc1 have sc2: "scans s2 = [(Seed, siteUrl)] @ map (Pair Sitemap) new1" by simp
    from subpagePhase_props[of E siteUrl robots s2] sub obtain new2 where
      m23: "visitedUrls s2 \<subseteq> visitedUrls s3"
      and "scans s3 = scans s2 @ map (Pair Subpage) new2"
      and n2: "\<forall>u \<in> set new2. JString u \<notin> visitedUrls s2 \<and> JString u \<in> visitedUrls s3"
      by auto
    with sc2 have sc3:
      "scans s3 = [(Seed, siteUrl)] @ map (Pair Sitemap) new1 @ map (Pair Subpage) new2"
      by simp
    obtain r where run: "findAllergyPDFs E siteUrl = Some r"
      and hist: "history r = [s0, s1, s2, s3]"
      using returned(3) by (simp add: robots_def s0_def s1_def)
    have chain: "sorted_wrt (\<lambda>before after. visitedUrls before \<subseteq> visitedUrls after) (history r)"
      using m12 m23 v0 by (auto simp: hist)
    have fresh1: "\<forall>u \<in> set new1. u \<noteq> siteUrl" using n1 v1 by auto
    have fresh2: "\<forall>u \<in> set new2. u \<noteq> siteUrl \<and> u \<notin> set new1"
      using n1 n2 m12 v1 by auto
    have final: "scans (last (history r)) =
        [(Seed, siteUrl)] @ map (Pair Sitemap) new1 @ map (Pair Subpage) new2"
      by (simp add: hist sc3)
    have one: "\<forall>p q url. (p, url) \<in> set (scans (last (history r))) \<and>
                 (q, url) \<in> set (scans (last (history r))) \<longrightarrow> p = q"
    proof (intro allI impI, elim conjE)
      fix p q url
      assume "(p, url) \<in> set (scans (last (history r)))"
        and "(q, url) \<in> set (scans (last (history r)))"
      then show "p = q" unfolding final by (rule scans_one_phase[OF fresh1 fresh2])
    qed
    have in3: "JString siteUrl \<in> visitedUrls s3" "\<forall>u \<in> set new1. JString u \<in> visitedUrls s3"
      "\<forall>u \<in> set new2. JString u \<in> visitedUrls s3"
      using m12 m23 v1 n1 n2 by auto
    have lastv: "visitedUrls (last (history r)) = visitedUrls s3" by (simp add: hist)
    have marked: "\<forall>p url. (p, url) \<in> set (scans (last (history r))) \<longrightarrow>
               JString url \<in> visitedUrls (last (history r))"
    proof (intro allI impI)
      fix p url
      assume "(p, url) \<in> set (scans (last (history r)))"
      then show "JString url \<in> visitedUrls (last (history r))"
        unfolding final lastv by (rule marked_scans[OF in3(2) in3(3) in3(1)])
    qed
    from run chain one marked show ?thesis by (intro exI[of _ r] conjI)
  qed
qed

text \<open>
  C8, as the code has it. Every run returns a list and no exception leaves
  \<open>findAllergyPDFs\<close>. The list returned is the orchestrator's own \<open>pdfLinks\<close> at that
  point. When an exception was caught, the run had gone through the seed scan and into
  the sitemap phase, and the list is the seed scan's hits: the hits of the phases that
  were completed. What the interrupted phase had found is not part of it.
\<close>

theorem exception_returns_accumulated_list:
  "\<exists>r. findAllergyPDFs E siteUrl = Some r \<and>
     result r = pdfLinks (last (history r)) \<and>
     (\<forall>err. outcome r = Caught err \<longrightarrow>
        length (history r) = 3 \<and>
        result r = searchPDFsInPage E siteUrl (fst (getRobotsRules E siteUrl)))"
proof (cases rule: run_cases[of E siteUrl])
  case (caught err s2)
  from sitemapPhase_props(3)[OF caught(1)]
  have "pdfLinks s2 = searchPDFsInPage E siteUrl (fst (getRobotsRules E siteUrl))"
    by (simp add: seedScan_simps)
  with caught(2) show ?thesis by simp
next
  case (returned s2 s3)
  then show ?thesis by simp
qed

lemma getRobotsRules_requests: "length (snd (getRobotsRules E baseUrl)) \<le> 1"
  by (simp add: getRobotsRules_def split: option.splits)

lemma run_robots_requests:
  "\<exists>r. findAllergyPDFs E siteUrl = Some r \<and> length (robots_requests r) \<le> 1"
proof (cases rule: run_cases[of E siteUrl])
  case (caught err s2)
  then show ?thesis using getRobotsRules_requests[of E siteUrl] by simp
next
  case (returned s2 s3)
  then show ?thesis using getRobotsRules_requests[of E siteUrl] by simp
qed

section \<open>Runs on the small site\<close>

lemma site_new_URL_root:
  "new_URL (site es) (js ''/robots.txt'') seed = Some robots_txt"
  "new_URL (site es) (js ''/sitemap.xml'') seed = Some sitemap_xml"
  by (simp_all add: site_def startsWith_def js_def origin_def seed_def robots_txt_def
       sitemap_xml_def)

lemma site_fetch_root:
  "fetch (site es) robots_txt = Some \<lparr>ok = True, body = Some []\<rparr>"
  "fetch (site es) sitemap_xml = Some \<lparr>ok = True, body = Some (js ''<urlset/>'')\<rparr>"
  by (simp_all add: site_def js_def seed_def menu_def robots_txt_def sitemap_xml_def)

lemma site_getRobotsRules: "getRobotsRules (site es) seed = (Some allow_all, [robots_txt])"
  by (simp add: getRobotsRules_def site_new_URL_root site_fetch_root) (simp add: site_def)

lemma site_getSitemapUrls:
  "getSitemapUrls (site plain_sitemap) seed = ([JString menu], [sitemap_xml])"
  "getSitemapUrls (site broken_sitemap) seed = ([JString menu, JObject], [sitemap_xml])"
  by (simp_all add: getSitemapUrls_def site_new_URL_root site_fetch_root)
     (simp_all add: site_def plain_sitemap_def broken_sitemap_def)

lemma menu_not_rendered:
  "\<not> includes_js menu (js ''allergen'')" "\<not> includes_js menu (js ''origin'')"
  by (simp_all add: includes_js_def menu_def js_def)

lemma site_sitemap_scans:
  "searchSitemapUrlsForPdfs (site es) [JString menu] (Some allow_all) = (Inr [menu_hit], [menu])"
  "searchSitemapUrlsForPdfs (site es) [JString menu, JObject] (Some allow_all) =
     (Inl TypeError, [menu])"
  by (simp_all add: searchSitemapUrlsForPdfs_def menu_not_rendered scan_menu_allow_all)

lemma site_fetch_pdf: "fetch (site es) allergy_pdf = None"
  by (simp add: site_def js_def seed_def menu_def allergy_pdf_def)

lemma site_getSubpageUrls: "getSubpageUrls (site es) seed (Some allow_all) = [allergy_pdf]"
  by (simp add: getSubpageUrls_def isAllowedByRobots_def allow_all_def site_fetch_seed
       site_cheerio_seed each_subpage_anchor_def trim_texts site_new_URL Set_add_def
       allergy_pdf_def)
     (simp add: startsWith_def js_def seed_def)

lemma visited_facts:
  "menu \<noteq> seed" "allergy_pdf \<noteq> seed" "allergy_pdf \<noteq> menu"
  by (simp_all add: js_def seed_def menu_def allergy_pdf_def)

lemma broken_sitemapPhase:
  "sitemapPhase (site broken_sitemap) seed (Some allow_all)
     (seedScan (site broken_sitemap) seed (Some allow_all)
        \<lparr>pdfLinks = [], visitedUrls = {}, scans = []\<rparr>) =
   (Some TypeError,
    \<lparr>pdfLinks = [seed_hit], visitedUrls = {JObject, JString menu, JString seed},
     scans = [(Seed, seed), (Sitemap, menu)]\<rparr>)"
  by (simp add: sitemapPhase_def seedScan_def site_getSitemapUrls scan_seed_allow_all
       visited_facts site_sitemap_scans)

lemma plain_sitemapPhase:
  "sitemapPhase (site plain_sitemap) seed (Some allow_all)
     (seedScan (site plain_sitemap) seed (Some allow_all)
        \<lparr>pdfLinks = [], visitedUrls = {}, scans = []\<rparr>) =
   (None,
    \<lparr>pdfLinks = [seed_hit, menu_hit], visitedUrls = {JString menu, JString seed},
     scans = [(Seed, seed), (Sitemap, menu)]\<rparr>)"
  by (simp add: sitemapPhase_def seedScan_def site_getSitemapUrls scan_seed_allow_all
       visited_facts site_sitemap_scans)

lemma scan_allergy_pdf: "searchPDFsInPage (site es) allergy_pdf robots = []"
  by (simp add: searchPDFsInPage_def site_fetch_pdf)

lemma plain_subpagePhase:
  "subpagePhase (site plain_sitemap) seed (Some allow_all)
     \<lparr>pdfLinks = [seed_hit, menu_hit], visitedUrls = {JString menu, JString seed},
      scans = [(Seed, seed), (Sitemap, menu)]\<rparr> =
   Some \<lparr>pdfLinks = [seed_hit, menu_hit],
         visitedUrls = {JString allergy_pdf, JString menu, JString seed},
         scans = [(Seed, seed), (Sitemap, menu), (Subpage, allergy_pdf)]\<rparr>"
  by (simp add: subpagePhase_def site_getSubpageUrls visited_facts
       searchSubpagesParallel_chunks chunks.simps scan_allergy_pdf)

lemma broken_run:
  "findAllergyPDFs (site broken_sitemap) seed =
     Some \<lparr>result = [seed_hit], outcome = Caught TypeError,
           history = [\<lparr>pdfLinks = [], visitedUrls = {}, scans = []\<rparr>,
                      \<lparr>pdfLinks = [seed_hit], visitedUrls = {JString seed},
                       scans = [(Seed, seed)]\<rparr>,
                      \<lparr>pdfLinks = [seed_hit],
                       visitedUrls = {JObject, JString menu, JString seed},
                       scans = [(Seed, seed), (Sitemap, menu)]\<rparr>],
           robots_requests = [robots_txt]\<rparr>"
  using run_caught[of "site broken_sitemap" seed TypeError] broken_sitemapPhase
  by (simp add: site_getRobotsRules seedScan_def scan_seed_allow_all)

lemma plain_run:
  "findAllergyPDFs (site plain_sitemap) seed =
     Some \<lparr>result = [seed_hit, menu_hit], outcome = Returned,
           history = [\<lparr>pdfLinks = [], visitedUrls = {}, scans = []\<rparr>,
                      \<lparr>pdfLinks = [seed_hit], visitedUrls = {JString seed},
                       scans = [(Seed, seed)]\<rparr>,
                      \<lparr>pdfLinks = [seed_hit, menu_hit],
                       visitedUrls = {JString menu, JString seed},
                       scans = [(Seed, seed), (Sitemap, menu)]\<rparr>,
                      \<lparr>pdfLinks = [seed_hit, menu_hit],
                       visitedUrls = {JString allergy_pdf, JString menu, JString seed},
                       scans = [(Seed, seed), (Sitemap, menu), (Subpage, allergy_pdf)]\<rparr>],
           robots_requests = [robots_txt]\<rparr>"
  using run_returned[of "site plain_sitemap" seed] plain_sitemapPhase plain_subpagePhase
  by (simp add: site_getRobotsRules seedScan_def scan_seed_allow_all)

text \<open>A run through all three phases, as an instance of C5.\<close>

theorem visited_set_grows_and_phases_disjoint_witness:
  "\<exists>r. findAllergyPDFs (site plain_sitemap) seed = Some r \<and>
     map visitedUrls (history r) =
       [{}, {JString seed}, {JString menu, JString seed},
        {JString allergy_pdf, JString menu, JString seed}] \<and>
     scans (last (history r)) = [(Seed, seed), (Sitemap, menu), (Subpage, allergy_pdf)] \<and>
     sorted_wrt (\<lambda>before after. visitedUrls before \<subseteq> visitedUrls after) (history r) \<and>
     (Sitemap, seed) \<notin> set (scans (last (history r))) \<and>
     JString allergy_pdf \<in> visitedUrls (last (history r))"
proof -
  from visited_set_grows_and_phases_disjoint[of "site plain_sitemap" seed]
  obtain r where run: "findAllergyPDFs (site plain_sitemap) seed = Some r"
    and chain: "sorted_wrt (\<lambda>before after. visitedUrls before \<subseteq> visitedUrls after) (history r)"
    and one: "\<forall>p q url. (p, url) \<in> set (scans (last (history r))) \<and>
                 (q, url) \<in> set (scans (last (history r))) \<longrightarrow> p = q"
    and marked: "\<forall>p url. (p, url) \<in> set (scans (last (history r))) \<longrightarrow>
               JString url \<in> visitedUrls (last (history r))"
    by (elim exE conjE)
  have "Some r = findAllergyPDFs (site plain_sitemap) seed" using run by (rule sym)
  then have hist: "history r =
      [\<lparr>pdfLinks = [], visitedUrls = {}, scans = []\<rparr>,
       \<lparr>pdfLinks = [seed_hit], visitedUrls = {JString seed}, scans = [(Seed, seed)]\<rparr>,
       \<lparr>pdfLinks = [seed_hit, menu_hit], visitedUrls = {JString menu, JString seed},
        scans = [(Seed, seed), (Sitemap, menu)]\<rparr>,
       \<lparr>pdfLinks = [seed_hit, menu_hit],
        visitedUrls = {JString allergy_pdf, JString menu, JString seed},
        scans = [(Seed, seed), (Sitemap, menu), (Subpage, allergy_pdf)]\<rparr>]"
    unfolding plain_run by (elim option.inject[THEN iffD1, elim_format]) simp
  have sc: "scans (last (history r)) =
      [(Seed, seed), (Sitemap, menu), (Subpage, allergy_pdf)]" by (simp add: hist)
  have d1: "(Seed, seed) \<in> set (scans (last (history r)))" by (simp add: sc)
  have d2: "(Subpage, allergy_pdf) \<in> set (scans (last (history r)))" by (simp add: sc)
  have not_twice: "(Sitemap, seed) \<notin> set (scans (last (history r)))"
  proof
    assume "(Sitemap, seed) \<in> set (scans (last (history r)))"
    with one d1 have "Sitemap = Seed" by (elim allE impE) (rule conjI)
    then show False by simp
  qed
  from marked d2 have in_visited: "JString allergy_pdf \<in> visitedUrls (last (history r))"
    by (elim allE impE)
  have sets: "map visitedUrls (history r) =
       [{}, {JString seed}, {JString menu, JString seed},
        {JString allergy_pdf, JString menu, JString seed}]" by (simp add: hist)
  from run sets sc chain not_twice in_visited show ?thesis
    by (intro exI[of _ r] conjI)
qed

text \<open>A run whose sitemap phase throws, as an instance of C8.\<close>

theorem exception_returns_accumulated_list_witness:
  "\<exists>r. findAllergyPDFs (site broken_sitemap) seed = Some r \<and>
     outcome r = Caught TypeError \<and>
     length (history r) = 3 \<and>
     result r = pdfLinks (last (history r)) \<and>
     result r = [seed_hit]"
proof -
  from exception_returns_accumulated_list[of "site broken_sitemap" seed]
  obtain r where run: "findAllergyPDFs (site broken_sitemap) seed = Some r"
    and acc: "result r = pdfLinks (last (history r))"
    and caught: "\<forall>err. outcome r = Caught err \<longrightarrow> length (history r) = 3 \<and>
        result r = searchPDFsInPage (site broken_sitemap) seed
                     (fst (getRobotsRules (site broken_sitemap) seed))"
    by blast
  from run have out: "outcome r = Caught TypeError" by (auto simp: broken_run)
  with caught have "length (history r) = 3"
    and "result r = searchPDFsInPage (site broken_sitemap) seed
                      (fst (getRobotsRules (site broken_sitemap) seed))" by blast+
  then have "length (history r) = 3" and "result r = [seed_hit]"
    by (simp_all add: site_getRobotsRules scan_seed_allow_all)
  with run out acc show ?thesis by blast
qed

text \<open>
  C8 as stated fails on the sitemap whose second entry is not a string: the menu page is
  scanned before the exception and has a hit, and the list returned holds the seed
  page's hit only.
\<close>

theorem interrupted_phase_hits_lost:
  "map_option outcome (findAllergyPDFs (site broken_sitemap) seed) = Some (Caught TypeError) \<and>
   map_option (\<lambda>r. scans (last (history r))) (findAllergyPDFs (site broken_sitemap) seed) =
     Some [(Seed, seed), (Sitemap, menu)] \<and>
   searchPDFsInPage (site broken_sitemap) menu
     (fst (getRobotsRules (site broken_sitemap) seed)) = [menu_hit] \<and>
   map_option result (findAllergyPDFs (site broken_sitemap) seed) = Some [seed_hit] \<and>
   menu_hit \<noteq> seed_hit"
  by (simp add: broken_run site_getRobotsRules scan_menu_allow_all)
     (simp add: menu_hit_def seed_hit_def menu_neq_seed)

section \<open>Falling back from the rendered scan\<close>

text \<open>
  When the launch fails, or the rendering fails after the launch and
  \<^verbatim>\<open>browser.close()\<close> resolves, \<open>searchPDFsInPageWithJS\<close> returns what
  \<open>searchPDFsInPage\<close> returns for the same URL and policy, and leaves no browser open.
\<close>

lemma render_failure_falls_back:
  assumes "puppeteer E url = LaunchFailed \<or>
           (puppeteer E url = RenderFailed \<and> close_resolves E url 0)"
  shows "\<exists>b. searchPDFsInPageWithJS E url robots = Inr (searchPDFsInPage E url robots, b) \<and>
             b \<noteq> Open"
  using assms by (auto simp: searchPDFsInPageWithJS_def searchPDFsInPage_def)

text \<open>
  When the rendering fails after the launch and \<^verbatim>\<open>browser.close()\<close> rejects in the
  \<open>catch\<close> block, the function throws.
\<close>

lemma teardown_failure_raises:
  assumes "\<not> (robots \<noteq> None \<and> \<not> isAllowedByRobots robots url)"
    and "puppeteer E url = RenderFailed" and "\<not> close_resolves E url 0"
  shows "searchPDFsInPageWithJS E url robots = Inl BrowserError"
  using assms by (simp add: searchPDFsInPageWithJS_def)

lemma each_anchor_close_resolves:
  "each_anchor (E\<lparr>close_resolves := f\<rparr>) url robots = each_anchor E url robots"
  by (intro ext) (auto simp: each_anchor_def Let_def split: option.splits)

lemma searchPDFsInPage_close_resolves:
  "searchPDFsInPage (E\<lparr>close_resolves := f\<rparr>) url robots = searchPDFsInPage E url robots"
  by (auto simp: searchPDFsInPage_def each_anchor_close_resolves split: option.splits)

text \<open>
  C7. The menu page on the site whose browser has crashed: the rendering fails after the
  launch and \<^verbatim>\<open>browser.close()\<close> rejects. The static scan of the page, which the
  fallback would return, has one hit, but \<open>searchPDFsInPageWithJS\<close> throws. On the same
  site with a browser that closes, the fallback's result is returned.
\<close>

theorem render_crash_raises:
  "isAllowedByRobots (Some allow_all) menu \<and>
   puppeteer crashed menu = RenderFailed \<and>
   \<not> close_resolves crashed menu 0 \<and>
   searchPDFsInPage crashed menu (Some allow_all) = [menu_hit] \<and>
   searchPDFsInPageWithJS crashed menu (Some allow_all) = Inl BrowserError \<and>
   searchPDFsInPageWithJS (site []) menu (Some allow_all) = Inr ([menu_hit], Closed)"
proof -
  have allowed: "isAllowedByRobots (Some allow_all) menu"
    by (simp add: isAllowedByRobots_def allow_all_def)
  have fail: "puppeteer crashed menu = RenderFailed" "\<not> close_resolves crashed menu 0"
    by (simp_all add: crashed_def site_def)
  have static: "searchPDFsInPage crashed menu (Some allow_all) = [menu_hit]"
    by (simp add: crashed_def searchPDFsInPage_close_resolves scan_menu_allow_all)
  have raises: "searchPDFsInPageWithJS crashed menu (Some allow_all) = Inl BrowserError"
    using allowed fail by (intro teardown_failure_raises) simp_all
  have "puppeteer (site []) menu = RenderFailed" "close_resolves (site []) menu 0"
    by (simp_all add: site_def)
  with allowed
  have "searchPDFsInPageWithJS (site []) menu (Some allow_all) = Inr ([menu_hit], Closed)"
    by (simp add: searchPDFsInPageWithJS_def scan_menu_allow_all)
  with allowed fail static raises show ?thesis by (intro conjI)
qed

section \<open>Sitemap discovery\<close>

lemma map_loc_Loc: "map_loc (map Loc locs) = Some locs"
  by (induction locs) simp_all

lemma map_loc_NoLoc: "NoLoc \<in> set items \<Longrightarrow> map_loc items = None"
proof (induction items)
  case Nil
  then show ?case by simp
next
  case (Cons item items)
  then show ?case by (cases item) (auto split: option.splits)
qed

text \<open>
  C9, as the code has it. \<open>getSitemapUrls\<close> sends no request when \<^verbatim>\<open>/sitemap.xml\<close>
  does not resolve against the site URL, and otherwise exactly one, to the URL it resolves
  to: for a resolution as the URL standard has it, the origin of the site URL followed by
  \<^verbatim>\<open>/sitemap.xml\<close>. It returns the empty list when the request fails, when the status is
  not a success, when the body cannot be read, when the XML does not parse, when the
  document has no urlset, and when some entry of the urlset has no \<open>loc\<close>; being a total
  function into lists, it throws in no case. When the status is a success and every entry
  of the urlset has a \<open>loc\<close>, it returns the first \<open>loc\<close> value of each entry in document
  order.
\<close>

theorem sitemap_discovery:
  "(new_URL E (js ''/sitemap.xml'') baseUrl = None \<longrightarrow> getSitemapUrls E baseUrl = ([], [])) \<and>
   (new_URL E (js ''/sitemap.xml'') baseUrl = Some sitemapUrl \<longrightarrow>
      snd (getSitemapUrls E baseUrl) = [sitemapUrl]) \<and>
   (new_URL E (js ''/sitemap.xml'') baseUrl = Some (origin_of baseUrl @ js ''/sitemap.xml'') \<longrightarrow>
      snd (getSitemapUrls E baseUrl) = [origin_of baseUrl @ js ''/sitemap.xml'']) \<and>
   (new_URL E (js ''/sitemap.xml'') baseUrl = Some sitemapUrl \<and>
    fetch E sitemapUrl = None \<longrightarrow> fst (getSitemapUrls E baseUrl) = []) \<and>
   (new_URL E (js ''/sitemap.xml'') baseUrl = Some sitemapUrl \<and>
    fetch E sitemapUrl = Some response \<and> \<not> ok response \<longrightarrow>
      fst (getSitemapUrls E baseUrl) = []) \<and>
   (new_URL E (js ''/sitemap.xml'') baseUrl = Some sitemapUrl \<and>
    fetch E sitemapUrl = Some response \<and> body response = None \<longrightarrow>
      fst (getSitemapUrls E baseUrl) = []) \<and>
   (new_URL E (js ''/sitemap.xml'') baseUrl = Some sitemapUrl \<and>
    fetch E sitemapUrl = Some response \<and> body response = Some xml \<and>
    parseStringPromise E xml = ParseError \<longrightarrow>
      fst (getSitemapUrls E baseUrl) = []) \<and>
   (new_URL E (js ''/sitemap.xml'') baseUrl = Some sitemapUrl \<and>
    fetch E sitemapUrl = Some response \<and> body response = Some xml \<and>
    parseStringPromise E xml = Parsed None \<longrightarrow>
      fst (getSitemapUrls E baseUrl) = []) \<and>
   (new_URL E (js ''/sitemap.xml'') baseUrl = Some sitemapUrl \<and>
    fetch E sitemapUrl = Some response \<and> body response = Some xml \<and>
    parseStringPromise E xml = Parsed (Some items) \<and> NoLoc \<in> set items \<longrightarrow>
      fst (getSitemapUrls E baseUrl) = []) \<and>
   (new_URL E (js ''/sitemap.xml'') baseUrl = Some sitemapUrl \<and>
    fetch E sitemapUrl = Some response \<and> ok response \<and> body response = Some xml \<and>
    parseStringPromise E xml = Parsed (Some (map Loc locs)) \<longrightarrow>
      fst (getSitemapUrls E baseUrl) = locs)"
  by (auto simp: getSitemapUrls_def map_loc_Loc map_loc_NoLoc split: option.splits xml.splits)

lemma site_sitemap_other:
  "new_URL (site es) (js ''/sitemap.xml'') (js ''menu'') = None"
  "new_URL (site es) (js ''/sitemap.xml'') menu = Some sitemap_xml"
  "origin_of menu @ js ''/sitemap.xml'' = sitemap_xml"
  "menu @ js ''/sitemap.xml'' = js ''https://example.test/menu/sitemap.xml''"
  "sitemap_xml \<noteq> js ''https://example.test/menu/sitemap.xml''"
  by (simp_all add: site_def startsWith_def origin_of_def js_def origin_def menu_def
       sitemap_xml_def)

lemma sitemap_envs:
  "new_URL offline (js ''/sitemap.xml'') seed = Some sitemap_xml"
  "fetch offline sitemap_xml = None"
  "new_URL not_found (js ''/sitemap.xml'') seed = Some sitemap_xml"
  "fetch not_found sitemap_xml = Some \<lparr>ok = False, body = Some (js ''Not Found'')\<rparr>"
  "new_URL unreadable (js ''/sitemap.xml'') seed = Some sitemap_xml"
  "fetch unreadable sitemap_xml = Some \<lparr>ok = True, body = None\<rparr>"
  "new_URL unparsable (js ''/sitemap.xml'') seed = Some sitemap_xml"
  "fetch unparsable sitemap_xml = Some \<lparr>ok = True, body = Some (js ''<urlset/>'')\<rparr>"
  "parseStringPromise unparsable (js ''<urlset/>'') = ParseError"
  "new_URL not_a_urlset (js ''/sitemap.xml'') seed = Some sitemap_xml"
  "fetch not_a_urlset sitemap_xml = Some \<lparr>ok = True, body = Some (js ''<urlset/>'')\<rparr>"
  "parseStringPromise not_a_urlset (js ''<urlset/>'') = Parsed None"
  by (simp_all add: offline_def not_found_def unreadable_def unparsable_def not_a_urlset_def
       site_new_URL_root site_fetch_root)

lemma sitemap_parses:
  "parseStringPromise (site plain_sitemap) (js ''<urlset/>'') =
     Parsed (Some (map Loc [JString menu]))"
  "parseStringPromise (site missing_loc_sitemap) (js ''<urlset/>'') =
     Parsed (Some [Loc (JString menu), NoLoc])"
  by (simp_all add: site_def plain_sitemap_def missing_loc_sitemap_def)

text \<open>Each case on the small site and its variants.\<close>

theorem sitemap_discovery_witness:
  "getSitemapUrls (site []) (js ''menu'') = ([], []) \<and>
   snd (getSitemapUrls (site plain_sitemap) seed) = [sitemap_xml] \<and>
   snd (getSitemapUrls (site plain_sitemap) menu) = [origin_of menu @ js ''/sitemap.xml''] \<and>
   fst (getSitemapUrls offline seed) = [] \<and>
   fst (getSitemapUrls not_found seed) = [] \<and>
   fst (getSitemapUrls unreadable seed) = [] \<and>
   fst (getSitemapUrls unparsable seed) = [] \<and>
   fst (getSitemapUrls not_a_urlset seed) = [] \<and>
   fst (getSitemapUrls (site missing_loc_sitemap) seed) = [] \<and>
   fst (getSitemapUrls (site plain_sitemap) seed) = [JString menu]"
proof -
  let ?urlset = "\<lparr>ok = True, body = Some (js ''<urlset/>'')\<rparr>"
  have body: "body ?urlset = Some (js ''<urlset/>'')" "ok ?urlset" by simp_all
  note unresolved = sitemap_discovery[where E = "site []" and baseUrl = "js ''menu''",
      THEN conjunct1, THEN mp]
  have w1: "getSitemapUrls (site []) (js ''menu'') = ([], [])"
    by (rule unresolved) (rule site_sitemap_other(1))
  note requested = sitemap_discovery[where E = "site plain_sitemap" and baseUrl = seed
      and sitemapUrl = sitemap_xml, THEN conjunct2, THEN conjunct1, THEN mp]
  have w2: "snd (getSitemapUrls (site plain_sitemap) seed) = [sitemap_xml]"
    by (rule requested) (rule site_new_URL_root(2))
  note at_root = sitemap_discovery[where E = "site plain_sitemap" and baseUrl = menu,
      THEN conjunct2, THEN conjunct2, THEN conjunct1, THEN mp]
  have w3: "snd (getSitemapUrls (site plain_sitemap) menu) =
              [origin_of menu @ js ''/sitemap.xml'']"
    by (rule at_root) (simp add: site_sitemap_other)
  note down = sitemap_discovery[where E = offline and baseUrl = seed
      and sitemapUrl = sitemap_xml,
      THEN conjunct2, THEN conjunct2, THEN conjunct2, THEN conjunct1, THEN mp]
  have w4: "fst (getSitemapUrls offline seed) = []"
    by (rule down) (simp add: sitemap_envs)
  note status = sitemap_discovery[where E = not_found and baseUrl = seed
      and sitemapUrl = sitemap_xml
      and response = "\<lparr>ok = False, body = Some (js ''Not Found'')\<rparr>",
      THEN conjunct2, THEN conjunct2, THEN conjunct2, THEN conjunct2, THEN conjunct1, THEN mp]
  have w5: "fst (getSitemapUrls not_found seed) = []"
    by (rule status) (simp add: sitemap_envs)
  note reading = sitemap_discovery[where E = unreadable and baseUrl = seed
      and sitemapUrl = sitemap_xml and response = "\<lparr>ok = True, body = None\<rparr>",
      THEN conjunct2, THEN conjunct2, THEN conjunct2, THEN conjunct2, THEN conjunct2,
      THEN conjunct1, THEN mp]
  have w6: "fst (getSitemapUrls unreadable seed) = []"
    by (rule reading) (simp add: sitemap_envs)
  note parsing = sitemap_discovery[where E = unparsable and baseUrl = seed
      and sitemapUrl = sitemap_xml and response = ?urlset and xml = "js ''<urlset/>''",
      THEN conjunct2, THEN conjunct2, THEN conjunct2, THEN conjunct2, THEN conjunct2,
      THEN conjunct2, THEN conjunct1, THEN mp]
  have w7: "fst (getSitemapUrls unparsable seed) = []"
    by (rule parsing) (simp add: sitemap_envs)
  note no_urlset = sitemap_discovery[where E = not_a_urlset and baseUrl = seed
      and sitemapUrl = sitemap_xml and response = ?urlset and xml = "js ''<urlset/>''",
      THEN conjunct2, THEN conjunct2, THEN conjunct2, THEN conjunct2, THEN conjunct2,
      THEN conjunct2, THEN conjunct2, THEN conjunct1, THEN mp]
  have w8: "fst (getSitemapUrls not_a_urlset seed) = []"
    by (rule no_urlset) (simp add: sitemap_envs)
  note no_loc = sitemap_discovery[where E = "site missing_loc_sitemap" and baseUrl = seed
      and sitemapUrl = sitemap_xml and response = ?urlset and xml = "js ''<urlset/>''"
      and items = "[Loc (JString menu), NoLoc]",
      THEN conjunct2, THEN conjunct2, THEN conjunct2, THEN conjunct2, THEN conjunct2,
      THEN conjunct2, THEN conjunct2, THEN conjunct2, THEN conjunct1, THEN mp]
  have w9: "fst (getSitemapUrls (site missing_loc_sitemap) seed) = []"
    by (rule no_loc) (simp add: site_new_URL_root site_fetch_root sitemap_parses)
  note success = sitemap_discovery[where E = "site plain_sitemap" and baseUrl = seed
      and sitemapUrl = sitemap_xml and response = ?urlset and xml = "js ''<urlset/>''"
      and locs = "[JString menu]",
      THEN conjunct2, THEN conjunct2, THEN conjunct2, THEN conjunct2, THEN conjunct2,
      THEN conjunct2, THEN conjunct2, THEN conjunct2, THEN conjunct2, THEN mp]
  have w10: "fst (getSitemapUrls (site plain_sitemap) seed) = [JString menu]"
    by (rule success) (simp add: site_new_URL_root site_fetch_root sitemap_parses)
  from w1 w2 w3 w4 w5 w6 w7 w8 w9 w10 show ?thesis by (intro conjI)
qed

text \<open>
  C9 as stated fails in three ways. A urlset whose second entry has no \<open>loc\<close> gives the
  empty list although its first entry has a location string. A \<open>loc\<close> that xml2js
  parsed into an object is returned as that object, not as a location string. For the
  site URL \<^verbatim>\<open>https://example.test/menu\<close> the request goes to
  \<^verbatim>\<open>https://example.test/sitemap.xml\<close>, not to the site URL followed by
  \<^verbatim>\<open>/sitemap.xml\<close>.
\<close>

theorem sitemap_discovery_counterexample:
  "fst (getSitemapUrls (site missing_loc_sitemap) seed) = [] \<and>
   fst (getSitemapUrls (site broken_sitemap) seed) = [JString menu, JObject] \<and>
   snd (getSitemapUrls (site plain_sitemap) menu) = [js ''https://example.test/sitemap.xml''] \<and>
   menu @ js ''/sitemap.xml'' = js ''https://example.test/menu/sitemap.xml'' \<and>
   js ''https://example.test/sitemap.xml'' \<noteq> js ''https://example.test/menu/sitemap.xml''"
proof -
  have "fst (getSitemapUrls (site missing_loc_sitemap) seed) = []"
    by (simp add: getSitemapUrls_def site_new_URL_root site_fetch_root sitemap_parses)
  moreover have "fst (getSitemapUrls (site broken_sitemap) seed) = [JString menu, JObject]"
    by (simp add: site_getSitemapUrls)
  moreover have "snd (getSitemapUrls (site plain_sitemap) menu) =
                   [js ''https://example.test/sitemap.xml'']"
    by (simp add: getSitemapUrls_def site_sitemap_other site_fetch_root sitemap_parses
          sitemap_xml_def[symmetric])
  moreover note site_sitemap_other(4) site_sitemap_other(5)[unfolded sitemap_xml_def]
  ultimately show ?thesis by (intro conjI)
qed

section \<open>The robots cache\<close>

lemma get_twice_cached:
  assumes "cache baseUrl = None"
    and "new_URL E (js ''/robots.txt'') baseUrl = Some robotsUrl"
    and "fetch E robotsUrl = Some response"
    and "body response = Some robotsTxt"
  shows "get_twice E baseUrl cache =
           (Some (robotsParser E robotsUrl robotsTxt),
            Some (robotsParser E robotsUrl robotsTxt), [robotsUrl])"
  using assms by (simp add: get_twice_def getRobotsRulesWithCache_def Let_def)

lemma get_twice_failed:
  assumes "cache baseUrl = None"
    and "new_URL E (js ''/robots.txt'') baseUrl = Some robotsUrl"
    and "fetch E robotsUrl = None \<or>
         (\<exists>response. fetch E robotsUrl = Some response \<and> body response = None)"
  shows "get_twice E baseUrl cache = (None, None, [robotsUrl, robotsUrl])"
  using assms by (auto simp: get_twice_def getRobotsRulesWithCache_def)

text \<open>
  C4, as the code has it. From a cache without the base URL, when the request for
  \<^verbatim>\<open>robots.txt\<close> and the reading of its body succeed, two calls in a row send exactly
  one request and return the same rules. When the request or the reading fails, nothing
  is cached: both calls return null and each sends a request. A run of the orchestrator
  sends at most one request for \<^verbatim>\<open>robots.txt\<close>.
\<close>

theorem robots_cache_single_fetch:
  "(cache baseUrl = None \<and> new_URL E (js ''/robots.txt'') baseUrl = Some robotsUrl \<and>
    fetch E robotsUrl = Some response \<and> body response = Some robotsTxt \<longrightarrow>
      get_twice E baseUrl cache =
        (Some (robotsParser E robotsUrl robotsTxt),
         Some (robotsParser E robotsUrl robotsTxt), [robotsUrl])) \<and>
   (cache baseUrl = None \<and> new_URL E (js ''/robots.txt'') baseUrl = Some robotsUrl \<and>
    (fetch E robotsUrl = None \<or>
     (\<exists>response. fetch E robotsUrl = Some response \<and> body response = None)) \<longrightarrow>
      get_twice E baseUrl cache = (None, None, [robotsUrl, robotsUrl])) \<and>
   (\<exists>r. findAllergyPDFs E siteUrl = Some r \<and> length (robots_requests r) \<le> 1)"
proof (intro conjI impI)
  assume "cache baseUrl = None \<and> new_URL E (js ''/robots.txt'') baseUrl = Some robotsUrl \<and>
    fetch E robotsUrl = Some response \<and> body response = Some robotsTxt"
  then show "get_twice E baseUrl cache =
        (Some (robotsParser E robotsUrl robotsTxt),
         Some (robotsParser E robotsUrl robotsTxt), [robotsUrl])"
    by (elim conjE) (rule get_twice_cached)
next
  assume "cache baseUrl = None \<and> new_URL E (js ''/robots.txt'') baseUrl = Some robotsUrl \<and>
    (fetch E robotsUrl = None \<or>
     (\<exists>response. fetch E robotsUrl = Some response \<and> body response = None))"
  then show "get_twice E baseUrl cache = (None, None, [robotsUrl, robotsUrl])"
    by (elim conjE) (rule get_twice_failed)
next
  show "\<exists>r. findAllergyPDFs E siteUrl = Some r \<and> length (robots_requests r) \<le> 1"
    by (rule run_robots_requests)
qed

lemma offline_env:
  "new_URL offline (js ''/robots.txt'') seed = Some robots_txt"
  "fetch offline robots_txt = None"
  by (simp_all add: offline_def site_new_URL_root)

text \<open>The small site, and the same site with the network down.\<close>

theorem robots_cache_single_fetch_witness:
  "get_twice (site []) seed Map.empty = (Some allow_all, Some allow_all, [robots_txt]) \<and>
   get_twice offline seed Map.empty = (None, None, [robots_txt, robots_txt]) \<and>
   (\<exists>r. findAllergyPDFs (site []) seed = Some r \<and> length (robots_requests r) \<le> 1)"
proof -
  have fresh: "(Map.empty :: robotsCache) seed = None" by simp
  have parsed: "robotsParser (site []) robots_txt [] = allow_all" by (simp add: site_def)
  have body: "body \<lparr>ok = True, body = Some []\<rparr> = Some ([] :: jsstring)" by simp
  note online = robots_cache_single_fetch[of Map.empty seed "site []" robots_txt
         "\<lparr>ok = True, body = Some []\<rparr>" "[]" seed]
  have hyp1: "(Map.empty :: robotsCache) seed = None \<and>
      new_URL (site []) (js ''/robots.txt'') seed = Some robots_txt \<and>
      fetch (site []) robots_txt = Some \<lparr>ok = True, body = Some []\<rparr> \<and>
      body \<lparr>ok = True, body = Some []\<rparr> = Some ([] :: jsstring)"
    using fresh body site_new_URL_root(1)[of "[]"] site_fetch_root(1)[of "[]"]
    by (intro conjI)
  from online[THEN conjunct1, THEN mp, OF hyp1]
  have first: "get_twice (site []) seed Map.empty = (Some allow_all, Some allow_all, [robots_txt])"
    unfolding parsed .
  from online[THEN conjunct2, THEN conjunct2]
  have run: "\<exists>r. findAllergyPDFs (site []) seed = Some r \<and> length (robots_requests r) \<le> 1" .
  note down = robots_cache_single_fetch[of Map.empty seed offline robots_txt
         "\<lparr>ok = True, body = Some []\<rparr>" "[]" seed]
  have hyp2: "(Map.empty :: robotsCache) seed = None \<and>
      new_URL offline (js ''/robots.txt'') seed = Some robots_txt \<and>
      (fetch offline robots_txt = None \<or>
       (\<exists>response. fetch offline robots_txt = Some response \<and> body response = None))"
    using fresh offline_env by (intro conjI disjI1)
  from down[THEN conjunct2, THEN conjunct1, THEN mp, OF hyp2]
  have second: "get_twice offline seed Map.empty = (None, None, [robots_txt, robots_txt])" .
  from first second run show ?thesis by (intro conjI)
qed

text \<open>
  C4 as stated fails when the network is down: two calls for the same base URL send two
  requests.
\<close>

theorem failed_fetch_is_not_cached:
  "fst (get_twice offline seed Map.empty) = None \<and>
   snd (snd (get_twice offline seed Map.empty)) = [robots_txt, robots_txt] \<and>
   length (snd (snd (get_twice offline seed Map.empty))) \<noteq> 1"
  by (simp add: get_twice_def getRobotsRulesWithCache_def offline_env)

end
